theory Spec2Isabelle
  imports Main
begin

section \<open>C strings, character arrays and size_t\<close>

text \<open>
  A C string is modelled by its characters before the terminator (a \<open>string\<close>); a nullable
  \<open>char *\<close> is a \<open>string option\<close>. Where the source indexes a character array, the array is
  modelled as the list of the bytes that the code has written, up to and including the
  terminator, and every read or write at an index outside it is undefined behaviour, which the
  model returns as an error value. A C \<open>int\<close> is an \<open>int\<close> between \<open>INT_MIN\<close> and \<open>INT_MAX\<close>,
  and \<open>size_t\<close> is a \<open>nat\<close> up to \<open>SIZE_MAX\<close> with the wrap-around written out.
\<close>

datatype error = OutOfBounds | NullPointer | IntOverflow

definition NUL :: char where
  "NUL = CHR 0x00"

definition newline :: char where
  "newline = CHR 0x0A"

definition SIZE_MAX :: nat where
  "SIZE_MAX = 2 ^ 64 - 1"

definition size_dec :: "nat \<Rightarrow> nat" where
  \<comment> \<open>\<open>x - 1\<close> on \<open>size_t\<close>: 0 wraps around to \<open>SIZE_MAX\<close>\<close>
  "size_dec x = (if x = 0 then SIZE_MAX else x - 1)"

definition isspace :: "char \<Rightarrow> bool" where
  \<comment> \<open>\<open>isspace\<close> of \<open>ctype.h\<close> in the C locale: space, \<open>\t \n \v \f \r\<close>\<close>
  "isspace c = (c = CHR 0x20 \<or> c = CHR 0x09 \<or> c = CHR 0x0A \<or> c = CHR 0x0B
                \<or> c = CHR 0x0C \<or> c = CHR 0x0D)"

definition to_array :: "string \<Rightarrow> char list" where
  \<comment> \<open>the character array holding a C string: its characters and the terminator\<close>
  "to_array s = s @ [NUL]"

definition cstr :: "char list \<Rightarrow> string" where
  \<comment> \<open>the C string held in a character array: the characters before the first NUL\<close>
  "cstr buf = takeWhile (\<lambda>c. c \<noteq> NUL) buf"

definition rd :: "char list \<Rightarrow> nat \<Rightarrow> error + char" where
  \<comment> \<open>\<open>buf[i]\<close> as a read; an object has at most \<open>SIZE_MAX\<close> bytes\<close>
  "rd buf i = (if i < length buf \<and> length buf \<le> SIZE_MAX then Inr (buf ! i)
               else Inl OutOfBounds)"

definition wr :: "char list \<Rightarrow> nat \<Rightarrow> char \<Rightarrow> error + char list" where
  \<comment> \<open>\<open>buf[i] = c\<close>\<close>
  "wr buf i c = (if i < length buf \<and> length buf \<le> SIZE_MAX then Inr (buf[i := c])
                 else Inl OutOfBounds)"

definition strlen :: "char list \<Rightarrow> error + nat" where
  "strlen buf = (if NUL \<in> set buf then Inr (length (cstr buf)) else Inl OutOfBounds)"

section \<open>trim (identical in both variants of the store)\<close>

function trim_begin :: "char list \<Rightarrow> nat \<Rightarrow> error + nat" where
  \<comment> \<open>\<open>while (isspace(str[begin])) ++begin;\<close>\<close>
  "trim_begin str begin =
     (case rd str begin of
        Inl e \<Rightarrow> Inl e
      | Inr c \<Rightarrow> if isspace c then trim_begin str (begin + 1) else Inr begin)"
  by pat_completeness auto
termination
  by (relation "measure (\<lambda>(str, begin). length str - begin)")
     (auto simp: rd_def split: if_splits)

declare trim_begin.simps [simp del]

function trim_end :: "char list \<Rightarrow> nat \<Rightarrow> nat \<Rightarrow> error + nat" where
  \<comment> \<open>\<open>while ((end >= begin) && isspace(str[end])) --end;\<close>\<close>
  "trim_end str begin end' =
     (if end' \<ge> begin then
        (case rd str end' of
           Inl e \<Rightarrow> Inl e
         | Inr c \<Rightarrow> if isspace c then trim_end str begin (size_dec end') else Inr end')
      else Inr end')"
  by pat_completeness auto
termination
  by (relation "measure (\<lambda>(str, begin, e). if e < length str then e + 1 else 0)")
     (auto simp: rd_def size_dec_def split: if_splits)

declare trim_end.simps [simp del]

function trim_shift :: "char list \<Rightarrow> nat \<Rightarrow> nat \<Rightarrow> nat \<Rightarrow> error + (char list \<times> nat)" where
  \<comment> \<open>\<open>for (i = begin; i <= end; ++i) str[i - begin] = str[i];\<close> returning the array and \<open>i\<close>\<close>
  "trim_shift str begin end' i =
     (if i \<le> end' then
        (case rd str i of
           Inl e \<Rightarrow> Inl e
         | Inr c \<Rightarrow>
            (case wr str (i - begin) c of
               Inl e \<Rightarrow> Inl e
             | Inr str' \<Rightarrow> trim_shift str' begin end' (i + 1)))
      else Inr (str, i))"
  by pat_completeness auto
termination
  by (relation "measure (\<lambda>(str, begin, e, i). length str - i)")
     (auto simp: rd_def wr_def split: if_splits)

declare trim_shift.simps [simp del]

definition trim :: "char list option \<Rightarrow> error + char list option" where
  "trim str =
     (case str of
        None \<Rightarrow> Inr None
      | Some buf \<Rightarrow>
         (case strlen buf of
            Inl e \<Rightarrow> Inl e
          | Inr n \<Rightarrow>
             (case trim_begin buf 0 of
                Inl e \<Rightarrow> Inl e
              | Inr begin \<Rightarrow>
                 (case trim_end buf begin (size_dec n) of
                    Inl e \<Rightarrow> Inl e
                  | Inr end' \<Rightarrow>
                     (case trim_shift buf begin end' begin of
                        Inl e \<Rightarrow> Inl e
                      | Inr (buf', i) \<Rightarrow>
                         (case wr buf' (i - begin) NUL of
                            Inl e \<Rightarrow> Inl e
                          | Inr buf'' \<Rightarrow> Inr (Some buf'')))))))"

section \<open>Text conversions of the C library\<close>

definition strncpy :: "string \<Rightarrow> nat \<Rightarrow> char list" where
  \<comment> \<open>the \<open>n\<close> bytes that \<open>strncpy(dst, src, n)\<close> writes: the characters of \<open>src\<close>, padded with NUL\<close>
  "strncpy src n = take n src @ replicate (n - length src) NUL"

definition strchr :: "string \<Rightarrow> char \<Rightarrow> nat option" where
  \<comment> \<open>the offset of the first occurrence of \<open>c\<close>, \<open>None\<close> for a null result\<close>
  "strchr s c = (if c \<in> set s then Some (length (takeWhile (\<lambda>x. x \<noteq> c) s)) else None)"

definition INT_MIN :: int where
  "INT_MIN = - 2147483648"

definition INT_MAX :: int where
  "INT_MAX = 2147483647"

definition digit_char :: "nat \<Rightarrow> char" where
  "digit_char d = ''0123456789'' ! d"

definition is_digit :: "char \<Rightarrow> bool" where
  "is_digit c = (48 \<le> (of_char c :: nat) \<and> (of_char c :: nat) \<le> 57)"

definition digit_val :: "char \<Rightarrow> int" where
  "digit_val c = int (of_char c) - 48"

fun decimal :: "nat \<Rightarrow> string" where
  "decimal n = (if n < 10 then [digit_char n] else decimal (n div 10) @ [digit_char (n mod 10)])"

declare decimal.simps [simp del]

definition format_d :: "int \<Rightarrow> string" where
  \<comment> \<open>the text that the conversion \<open>%d\<close> produces for a C int\<close>
  "format_d v = (if v < 0 then CHR ''-'' # decimal (nat (- v)) else decimal (nat v))"

definition snprintf_d :: "nat \<Rightarrow> int \<Rightarrow> string" where
  \<comment> \<open>\<open>snprintf(buf, size, "%d", v)\<close>: at most \<open>size - 1\<close> characters are stored\<close>
  "snprintf_d size' v = take (size' - 1) (format_d v)"

fun atoi_digits :: "int \<Rightarrow> string \<Rightarrow> int" where
  "atoi_digits acc [] = acc"
| "atoi_digits acc (c # cs) = (if is_digit c then atoi_digits (10 * acc + digit_val c) cs else acc)"

definition atoi :: "string \<Rightarrow> error + int" where
  \<comment> \<open>leading white space, an optional sign, then decimal digits; a value that does not fit
      an int is undefined behaviour\<close>
  "atoi s =
     (let t = dropWhile isspace s;
          n = (case t of
                 [] \<Rightarrow> 0
               | c # cs \<Rightarrow> if c = CHR ''-'' then - atoi_digits 0 cs
                           else if c = CHR ''+'' then atoi_digits 0 cs
                           else atoi_digits 0 t)
      in if INT_MIN \<le> n \<and> n \<le> INT_MAX then Inr n else Inl IntOverflow)"

section \<open>Memory allocation and files\<close>

text \<open>
  The allocator is an oracle: the list gives the outcome of the coming calls of
  \<open>memory_malloc\<close> and \<open>memory_realloc\<close> in call order (\<open>True\<close>: the call succeeds); once the
  list is used up every call succeeds.
\<close>

type_synonym alloc = "bool list"

fun memory_malloc :: "alloc \<Rightarrow> bool \<times> alloc" where
  "memory_malloc [] = (True, [])"
| "memory_malloc (b # bs) = (b, bs)"

text \<open>
  The file system maps a path to the text of the file there; \<open>unwritable\<close> holds for the
  paths that \<open>fopen(path, "wt")\<close> fails on. A stream opened for reading is the text that is
  still to be read.
\<close>

record filesystem =
  files :: "string \<Rightarrow> string option"
  unwritable :: "string \<Rightarrow> bool"

fun fgets_chars :: "nat \<Rightarrow> string \<Rightarrow> string \<times> string" where
  \<comment> \<open>read at most \<open>n\<close> characters, stopping after a newline\<close>
  "fgets_chars n [] = ([], [])"
| "fgets_chars n (c # cs) =
     (if n = 0 then ([], c # cs)
      else if c = newline then ([c], cs)
      else (case fgets_chars (n - 1) cs of (l, r) \<Rightarrow> (c # l, r)))"

definition fgets :: "nat \<Rightarrow> string \<Rightarrow> (string \<times> string) option" where
  \<comment> \<open>\<open>fgets(buf, size, f)\<close>: \<open>None\<close> for a null result at end of file, else the bytes read
      and the rest of the stream\<close>
  "fgets size' f = (if f = [] then None else Some (fgets_chars (size' - 1) f))"

section \<open>The bounded store (settings.c)\<close>

definition CONFIG_KEY_LENGTH :: nat where
  "CONFIG_KEY_LENGTH = 128"

definition CONFIG_VALUE_LENGTH :: nat where
  "CONFIG_VALUE_LENGTH = 128"

definition CONFIG_LINE_LENGTH :: nat where
  "CONFIG_LINE_LENGTH = 1024"

text \<open>
  The doubly linked list from \<open>first\<close> to \<open>last\<close> is the list of its pairs in \<open>next\<close> order; a
  pointer to a pair of the list is its position together with the pair.
\<close>

record Pair =
  key :: string
  "value" :: string

type_synonym Settings = "Pair list"

definition copy_pair :: "string \<Rightarrow> string \<Rightarrow> Pair" where
  \<comment> \<open>\<open>strncpy\<close> of \<open>CONFIG_KEY_LENGTH\<close> bytes, then a terminator in the last byte\<close>
  "copy_pair src_key src_value =
     \<lparr>key = take (CONFIG_KEY_LENGTH - 1) src_key,
      value = take (CONFIG_VALUE_LENGTH - 1) src_value\<rparr>"

definition create_pair :: "alloc \<Rightarrow> string option \<Rightarrow> string option \<Rightarrow> Pair option \<times> alloc" where
  "create_pair a k v =
     (case (k, v) of
        (Some k', Some v') \<Rightarrow>
          (case memory_malloc a of
             (True, a') \<Rightarrow> (Some (copy_pair k' v'), a')
           | (False, a') \<Rightarrow> (None, a'))
      | _ \<Rightarrow> (None, a))"

definition keys_match :: "string option \<Rightarrow> string option \<Rightarrow> bool" where
  \<comment> \<open>\<open>strncmp(key1, key2, CONFIG_KEY_LENGTH) == 0\<close>\<close>
  "keys_match key1 key2 =
     (case (key1, key2) of
        (Some k1, Some k2) \<Rightarrow> take CONFIG_KEY_LENGTH k1 = take CONFIG_KEY_LENGTH k2
      | _ \<Rightarrow> False)"

fun find_from :: "Pair list \<Rightarrow> nat \<Rightarrow> string option \<Rightarrow> (nat \<times> Pair) option" where
  \<comment> \<open>the search loop, at position \<open>i\<close> of the list\<close>
  "find_from [] i k = None"
| "find_from (pair # rest) i k =
     (if keys_match (Some (key pair)) k then Some (i, pair) else find_from rest (i + 1) k)"

definition find_pair :: "Settings option \<Rightarrow> string option \<Rightarrow> (nat \<times> Pair) option" where
  "find_pair settings k = (case settings of None \<Rightarrow> None | Some s \<Rightarrow> find_from s 0 k)"

definition settings_create :: "alloc \<Rightarrow> Settings option \<times> alloc" where
  "settings_create a = (case memory_malloc a of (True, a') \<Rightarrow> (Some [], a') | (False, a') \<Rightarrow> (None, a'))"

definition settings_set_string ::
  "alloc \<Rightarrow> Settings option \<Rightarrow> string option \<Rightarrow> string option \<Rightarrow> int \<times> alloc \<times> Settings option" where
  "settings_set_string a settings k v =
     (case (settings, k, v) of
        (Some s, Some k', Some v') \<Rightarrow>
          if length k' \<ge> CONFIG_KEY_LENGTH \<or> length v' \<ge> CONFIG_VALUE_LENGTH then (0, a, settings)
          else
            (case find_pair settings k of
               Some (i, pair) \<Rightarrow> (1, a, Some (s[i := copy_pair k' v']))
             | None \<Rightarrow>
                (case create_pair a k v of
                   (Some pair, a') \<Rightarrow> (1, a', Some (s @ [pair]))
                 | (None, a') \<Rightarrow> (0, a', settings)))
      | _ \<Rightarrow> (0, a, settings))"

definition settings_set_int ::
  "alloc \<Rightarrow> Settings option \<Rightarrow> string option \<Rightarrow> int \<Rightarrow> int \<times> alloc \<times> Settings option" where
  "settings_set_int a settings k v =
     settings_set_string a settings k (Some (snprintf_d CONFIG_VALUE_LENGTH v))"

definition settings_get_string :: "Settings option \<Rightarrow> string option \<Rightarrow> string option \<Rightarrow> string option" where
  "settings_get_string settings k default_value =
     (case find_pair settings k of
        Some (i, pair) \<Rightarrow> Some (value pair)
      | None \<Rightarrow> default_value)"

definition settings_get_int :: "Settings option \<Rightarrow> string option \<Rightarrow> int \<Rightarrow> error + int" where
  "settings_get_int settings k default_value =
     (case find_pair settings k of
        Some (i, pair) \<Rightarrow> atoi (value pair)
      | None \<Rightarrow> Inr default_value)"

definition settings_get_float :: "(string \<Rightarrow> 'f) \<Rightarrow> Settings option \<Rightarrow> string option \<Rightarrow> 'f \<Rightarrow> 'f" where
  \<comment> \<open>\<open>atof\<close> and the type of floats are parameters\<close>
  "settings_get_float atof settings k default_value =
     (case find_pair settings k of
        Some (i, pair) \<Rightarrow> atof (value pair)
      | None \<Rightarrow> default_value)"

fun save_pairs :: "Pair list \<Rightarrow> string \<Rightarrow> string" where
  \<comment> \<open>the writing loop; \<open>out\<close> is the text written to the stream so far\<close>
  "save_pairs [] out = out"
| "save_pairs (pair # rest) out =
     save_pairs rest (out @ key pair @ '' = '' @ value pair @ [newline])"

definition settings_save ::
  "filesystem \<Rightarrow> Settings option \<Rightarrow> string option \<Rightarrow> int \<times> filesystem \<times> Settings option" where
  "settings_save fs settings path =
     (case (settings, path) of
        (Some s, Some p) \<Rightarrow>
          if unwritable fs p then (0, fs, settings)
          else (1, fs\<lparr>files := (files fs)(p \<mapsto> save_pairs s [])\<rparr>, settings)
      | _ \<Rightarrow> (0, fs, settings))"

definition load_line ::
  "alloc \<Rightarrow> Settings option \<Rightarrow> string \<Rightarrow> error + (alloc \<times> Settings option)" where
  \<comment> \<open>the body of the reading loop, on the C string \<open>line\<close>\<close>
  "load_line a settings line =
     (case strchr line (CHR ''='') of
        None \<Rightarrow> Inr (a, settings)
      | Some p \<Rightarrow>
         (let key_len = p;
              val_len = length (drop (p + 1) line);
              key0 = strncpy line key_len;
              val0 = strncpy (drop (p + 1) line) val_len
          in case wr key0 (size_dec key_len) NUL of
               Inl e \<Rightarrow> Inl e
             | Inr key1 \<Rightarrow>
                (case wr val0 (size_dec val_len) NUL of
                   Inl e \<Rightarrow> Inl e
                 | Inr val1 \<Rightarrow>
                    (case trim (Some key1) of
                       Inl e \<Rightarrow> Inl e
                     | Inr key2 \<Rightarrow>
                        (case trim (Some val1) of
                           Inl e \<Rightarrow> Inl e
                         | Inr val2 \<Rightarrow>
                            (case settings_set_string a settings
                                    (map_option cstr key2) (map_option cstr val2) of
                               (r, a', settings') \<Rightarrow> Inr (a', settings')))))))"

function load_lines ::
  "alloc \<Rightarrow> Settings option \<Rightarrow> string \<Rightarrow> error + (alloc \<times> Settings option)" where
  \<comment> \<open>\<open>while (fgets(line, CONFIG_LINE_LENGTH, f) != NULL) ...\<close>\<close>
  "load_lines a settings f =
     (case fgets CONFIG_LINE_LENGTH f of
        None \<Rightarrow> Inr (a, settings)
      | Some (line, f') \<Rightarrow>
         (case load_line a settings (cstr line) of
            Inl e \<Rightarrow> Inl e
          | Inr (a', settings') \<Rightarrow> load_lines a' settings' f'))"
  by pat_completeness auto
termination
proof (relation "measure (\<lambda>(a, settings, f). length f)", goal_cases)
  case 1
  show ?case by simp
next
  case (2 a settings f x2 x y x2a xa ya)
  have rest: "length (snd (fgets_chars n cs)) \<le> length cs" for n cs
    by (induction n cs rule: fgets_chars.induct) (auto split: prod.splits)
  from 2 obtain c cs where f: "f = c # cs"
    by (cases f) (auto simp: fgets_def)
  with 2 have "fgets_chars 1023 (c # cs) = (x, y)"
    by (auto simp: fgets_def CONFIG_LINE_LENGTH_def)
  then have "y = cs \<or> y = snd (fgets_chars 1022 cs)"
    by (auto split: if_splits prod.splits)
  with rest [of 1022 cs] f show ?case
    by auto
qed

declare load_lines.simps [simp del]

definition settings_load ::
  "filesystem \<Rightarrow> alloc \<Rightarrow> Settings option \<Rightarrow> string option \<Rightarrow> error + (int \<times> alloc \<times> Settings option)" where
  "settings_load fs a settings path =
     (case (settings, path) of
        (Some s, Some p) \<Rightarrow>
          (case files fs p of
             None \<Rightarrow> Inr (0, a, settings)
           | Some f \<Rightarrow>
              (case load_lines a settings f of
                 Inl e \<Rightarrow> Inl e
               | Inr (a', settings') \<Rightarrow> Inr (1, a', settings')))
      | _ \<Rightarrow> Inr (0, a, settings))"

section \<open>The dynamic store (the variant with heap-allocated keys and values)\<close>

text \<open>
  Here \<open>key\<close> and \<open>value\<close> of a pair are pointers and may be null. A heap block is modelled by
  the C string it holds; the content of a fresh block is indeterminate and is taken to be the
  empty string, which every path overwrites or frees before reading it.
\<close>

definition memory_realloc :: "alloc \<Rightarrow> bool \<times> alloc" where
  "memory_realloc a = memory_malloc a"

definition BUFSIZ :: nat where
  \<comment> \<open>of \<open>stdio.h\<close>; 8192 in glibc, at least 256 by the standard\<close>
  "BUFSIZ = 8192"

definition INT_MAX_spelling :: string where
  \<comment> \<open>the token that \<open>INT_MAX\<close> of \<open>limits.h\<close> expands to; it is \<open>0x7fffffff\<close> in other
      headers, of the same length\<close>
  "INT_MAX_spelling = ''2147483647''"

definition NUM_DIGITS :: "string \<Rightarrow> nat" where
  \<comment> \<open>\<open>sizeof(STRINGIFY(x)) - 1\<close>\<close>
  "NUM_DIGITS x = (length x + 1) - 1"

definition INT_DIGITS :: nat where
  "INT_DIGITS = NUM_DIGITS INT_MAX_spelling + 1"

record Pair_dyn =
  key_dyn :: "string option"
  value_dyn :: "string option"

type_synonym Settings_dyn = "Pair_dyn list"

definition resize :: "alloc \<Rightarrow> string option \<Rightarrow> nat \<Rightarrow> string option \<times> alloc" where
  "resize a array size0 =
     (let size' = size0 + 1;
          old = (case array of None \<Rightarrow> [] | Some s \<Rightarrow> s)
      in if array = None \<or> length old \<le> size' then
           (case memory_realloc a of
              (True, a') \<Rightarrow> (Some (take (size' - 1) old), a')
            | (False, a') \<Rightarrow> (None, a'))
         else (array, a))"

definition copy_pair_dyn ::
  "string option \<Rightarrow> string option \<Rightarrow> string \<Rightarrow> string \<Rightarrow> int \<times> string option \<times> string option" where
  \<comment> \<open>returns the result and the strings held by the two destinations afterwards\<close>
  "copy_pair_dyn dst_key dst_val src_key src_val =
     (if dst_key = None \<or> dst_val = None then (0, dst_key, dst_val)
      else
        (let key_len = length src_key + 1;
             val_len = length src_val + 1
         in (1, Some (take (key_len - 1) src_key), Some (take (val_len - 1) src_val))))"

definition create_pair_dyn ::
  "alloc \<Rightarrow> string option \<Rightarrow> string option \<Rightarrow> Pair_dyn option \<times> alloc" where
  "create_pair_dyn a k v =
     (case (k, v) of
        (Some k', Some v') \<Rightarrow>
          (case memory_malloc a of
             (False, a1) \<Rightarrow> (None, a1)
           | (True, a1) \<Rightarrow>
              (case resize a1 None (length k') of
                 (pk, a2) \<Rightarrow>
                   (case resize a2 None (length v') of
                      (pv, a3) \<Rightarrow>
                        (case copy_pair_dyn pk pv k' v' of
                           (r, pk', pv') \<Rightarrow>
                             if r = 0 then (None, a3)
                             else (Some \<lparr>key_dyn = pk', value_dyn = pv'\<rparr>, a3)))))
      | _ \<Rightarrow> (None, a))"

definition keys_match_dyn :: "string option \<Rightarrow> string option \<Rightarrow> bool" where
  \<comment> \<open>\<open>strcmp(key1, key2) == 0\<close>\<close>
  "keys_match_dyn key1 key2 =
     (case (key1, key2) of (Some k1, Some k2) \<Rightarrow> k1 = k2 | _ \<Rightarrow> False)"

fun find_from_dyn :: "Pair_dyn list \<Rightarrow> nat \<Rightarrow> string option \<Rightarrow> (nat \<times> Pair_dyn) option" where
  "find_from_dyn [] i k = None"
| "find_from_dyn (pair # rest) i k =
     (if keys_match_dyn (key_dyn pair) k then Some (i, pair) else find_from_dyn rest (i + 1) k)"

definition find_pair_dyn :: "Settings_dyn option \<Rightarrow> string option \<Rightarrow> (nat \<times> Pair_dyn) option" where
  "find_pair_dyn settings k = (case settings of None \<Rightarrow> None | Some s \<Rightarrow> find_from_dyn s 0 k)"

definition settings_set_string_dyn ::
  "alloc \<Rightarrow> Settings_dyn option \<Rightarrow> string option \<Rightarrow> string option
    \<Rightarrow> int \<times> alloc \<times> Settings_dyn option" where
  "settings_set_string_dyn a settings k v =
     (case (settings, k, v) of
        (Some s, Some k', Some v') \<Rightarrow>
          (case find_pair_dyn settings k of
             Some (i, pair) \<Rightarrow>
               (case resize a (key_dyn pair) (length k') of
                  (pk, a1) \<Rightarrow>
                    (case resize a1 (value_dyn pair) (length v') of
                       (pv, a2) \<Rightarrow>
                         (case copy_pair_dyn pk pv k' v' of
                            (result, pk', pv') \<Rightarrow>
                              (result, a2, Some (s[i := \<lparr>key_dyn = pk', value_dyn = pv'\<rparr>])))))
           | None \<Rightarrow>
              (case create_pair_dyn a k v of
                 (Some pair, a') \<Rightarrow> (1, a', Some (s @ [pair]))
               | (None, a') \<Rightarrow> (0, a', settings)))
      | _ \<Rightarrow> (0, a, settings))"

definition settings_set_int_dyn ::
  "alloc \<Rightarrow> Settings_dyn option \<Rightarrow> string option \<Rightarrow> int \<Rightarrow> int \<times> alloc \<times> Settings_dyn option" where
  "settings_set_int_dyn a settings k v =
     settings_set_string_dyn a settings k (Some (snprintf_d INT_DIGITS v))"

definition settings_get_string_dyn ::
  "Settings_dyn option \<Rightarrow> string option \<Rightarrow> string option \<Rightarrow> string option" where
  "settings_get_string_dyn settings k default_value =
     (case find_pair_dyn settings k of
        Some (i, pair) \<Rightarrow> value_dyn pair
      | None \<Rightarrow> default_value)"

definition settings_get_int_dyn :: "Settings_dyn option \<Rightarrow> string option \<Rightarrow> int \<Rightarrow> error + int" where
  "settings_get_int_dyn settings k default_value =
     (case find_pair_dyn settings k of
        Some (i, pair) \<Rightarrow> (case value_dyn pair of None \<Rightarrow> Inl NullPointer | Some s \<Rightarrow> atoi s)
      | None \<Rightarrow> Inr default_value)"

definition settings_get_float_dyn ::
  "(string option \<Rightarrow> 'f) \<Rightarrow> Settings_dyn option \<Rightarrow> string option \<Rightarrow> 'f \<Rightarrow> 'f" where
  "settings_get_float_dyn atof settings k default_value =
     (case find_pair_dyn settings k of
        Some (i, pair) \<Rightarrow> atof (value_dyn pair)
      | None \<Rightarrow> default_value)"

fun save_pairs_dyn :: "Pair_dyn list \<Rightarrow> string \<Rightarrow> error + string" where
  \<comment> \<open>a null pointer for \<open>%s\<close> is undefined behaviour\<close>
  "save_pairs_dyn [] out = Inr out"
| "save_pairs_dyn (pair # rest) out =
     (case (key_dyn pair, value_dyn pair) of
        (Some k, Some v) \<Rightarrow> save_pairs_dyn rest (out @ k @ '' = '' @ v @ [newline])
      | _ \<Rightarrow> Inl NullPointer)"

definition settings_save_dyn ::
  "filesystem \<Rightarrow> Settings_dyn option \<Rightarrow> string option
    \<Rightarrow> error + (int \<times> filesystem \<times> Settings_dyn option)" where
  "settings_save_dyn fs settings path =
     (case (settings, path) of
        (Some s, Some p) \<Rightarrow>
          if unwritable fs p then Inr (0, fs, settings)
          else
            (case save_pairs_dyn s [] of
               Inl e \<Rightarrow> Inl e
             | Inr out \<Rightarrow> Inr (1, fs\<lparr>files := (files fs)(p \<mapsto> out)\<rparr>, settings))
      | _ \<Rightarrow> Inr (0, fs, settings))"

function get_line_loop ::
  "alloc \<Rightarrow> nat \<Rightarrow> string \<Rightarrow> string \<Rightarrow> error + (string option \<times> alloc \<times> string)" where
  \<comment> \<open>the loop of \<open>get_line\<close>: \<open>buf\<close> is the C string read so far (\<open>len\<close> is its length), in a
      block of \<open>size'\<close> bytes. A block cannot hold a string of its own size or more; the
      second test rules such arguments out and never fails in \<open>get_line\<close>.\<close>
  "get_line_loop a size' buf f =
     (if newline \<in> set buf then Inr (Some (take (size' - 1) buf), a, f)
      else if size' \<le> length buf then Inl OutOfBounds
      else
        (case memory_realloc a of
           (False, a') \<Rightarrow> Inl NullPointer
         | (True, a') \<Rightarrow>
            (case fgets (size' + BUFSIZ - length buf) f of
               None \<Rightarrow> Inr (Some buf, a', f)
             | Some (l, f') \<Rightarrow> get_line_loop a' (size' + BUFSIZ) (buf @ cstr l) f')))"
  by pat_completeness auto
termination
proof (relation "measure (\<lambda>(a, size', buf, f). length f)", goal_cases)
  case 1
  show ?case by simp
next
  case (2 a size' buf f x y x2 xa ya)
  have rest: "length (snd (fgets_chars n cs)) \<le> length cs" for n cs
    by (induction n cs rule: fgets_chars.induct) (auto split: prod.splits)
  from 2 obtain c cs where f: "f = c # cs"
    by (cases f) (auto simp: fgets_def)
  from 2 have "size' + BUFSIZ - length buf - 1 \<noteq> 0"
    by (simp add: BUFSIZ_def)
  with 2 f have "ya = cs \<or> ya = snd (fgets_chars (size' + BUFSIZ - length buf - 1 - 1) cs)"
    by (auto simp: fgets_def split: if_splits prod.splits)
  with rest [of "size' + BUFSIZ - length buf - 1 - 1" cs] f show ?case
    by auto
qed

declare get_line_loop.simps [simp del]

definition get_line :: "alloc \<Rightarrow> string \<Rightarrow> error + (string option \<times> alloc \<times> string)" where
  "get_line a f =
     (case memory_malloc a of
        (False, a') \<Rightarrow> Inr (None, a', f)
      | (True, a') \<Rightarrow>
         (case fgets BUFSIZ f of
            None \<Rightarrow> Inr (None, a', f)
          | Some (l, f') \<Rightarrow> get_line_loop a' BUFSIZ (cstr l) f'))"

definition load_line_dyn ::
  "alloc \<Rightarrow> Settings_dyn option \<Rightarrow> string \<Rightarrow> error + (alloc \<times> Settings_dyn option)" where
  "load_line_dyn a settings line =
     (case strchr line (CHR ''='') of
        None \<Rightarrow> Inr (a, settings)
      | Some p \<Rightarrow>
         (let key_len = p;
              val_len = length (drop (p + 1) line);
              key0 = strncpy line key_len;
              val0 = strncpy (drop (p + 1) line) val_len
          in case wr key0 (size_dec key_len) NUL of
               Inl e \<Rightarrow> Inl e
             | Inr key1 \<Rightarrow>
                (case wr val0 (size_dec val_len) NUL of
                   Inl e \<Rightarrow> Inl e
                 | Inr val1 \<Rightarrow>
                    (case trim (Some key1) of
                       Inl e \<Rightarrow> Inl e
                     | Inr key2 \<Rightarrow>
                        (case trim (Some val1) of
                           Inl e \<Rightarrow> Inl e
                         | Inr val2 \<Rightarrow>
                            (case settings_set_string_dyn a settings
                                    (map_option cstr key2) (map_option cstr val2) of
                               (r, a', settings') \<Rightarrow> Inr (a', settings')))))))"

function load_lines_dyn ::
  "alloc \<Rightarrow> Settings_dyn option \<Rightarrow> string \<Rightarrow> error + (alloc \<times> Settings_dyn option)" where
  \<comment> \<open>\<open>while ((line = get_line(f)) != NULL) ...\<close>\<close>
  "load_lines_dyn a settings f =
     (case get_line a f of
        Inl e \<Rightarrow> Inl e
      | Inr (None, a', f') \<Rightarrow> Inr (a', settings)
      | Inr (Some line, a', f') \<Rightarrow>
         (case load_line_dyn a' settings line of
            Inl e \<Rightarrow> Inl e
          | Inr (a'', settings') \<Rightarrow> load_lines_dyn a'' settings' f'))"
  by pat_completeness auto
termination
proof (relation "measure (\<lambda>(a, settings, f). length f)", goal_cases)
  case 1
  show ?case by simp
next
  case (2 a settings f r lo rest line a1 f1 y a2 s2)
  have rest: "length (snd (fgets_chars n cs)) \<le> length cs" for n cs
    by (induction n cs rule: fgets_chars.induct) (auto split: prod.splits)
  have fg: "fgets n cs = Some (l, r) \<Longrightarrow> length r \<le> length cs" for n cs l r
    using rest [of "n - 1" cs] by (auto simp: fgets_def split: if_splits)
  have fg1: "fgets n cs = Some (l, r) \<Longrightarrow> 2 \<le> n \<Longrightarrow> length r < length cs" for n cs l r
    using rest [of "n - 1 - 1" "tl cs"]
    by (cases cs) (auto simp: fgets_def split: if_splits prod.splits)
  have loop: "get_line_loop b n buf g = Inr (l, b', g') \<Longrightarrow> length g' \<le> length g" for b n buf g l b' g'
  proof (induction b n buf g rule: get_line_loop.induct)
    case (1 b n buf g)
    from "1.prems" show ?case
      by (subst (asm) get_line_loop.simps)
         (auto split: if_splits prod.splits bool.splits option.splits
               dest!: "1.IH" [OF _ _ sym] dest: fg)
  qed
  from 2 have "get_line a f = Inr (Some line, a1, f1)"
    by simp
  then have "length f1 < length f"
    by (auto simp: get_line_def BUFSIZ_def split: prod.splits bool.splits option.splits
             dest!: loop fg1)
  then show ?case by simp
qed

declare load_lines_dyn.simps [simp del]

definition settings_load_dyn ::
  "filesystem \<Rightarrow> alloc \<Rightarrow> Settings_dyn option \<Rightarrow> string option
    \<Rightarrow> error + (int \<times> alloc \<times> Settings_dyn option)" where
  "settings_load_dyn fs a settings path =
     (case (settings, path) of
        (Some s, Some p) \<Rightarrow>
          (case files fs p of
             None \<Rightarrow> Inr (0, a, settings)
           | Some f \<Rightarrow>
              (case load_lines_dyn a settings f of
                 Inl e \<Rightarrow> Inl e
               | Inr (a', settings') \<Rightarrow> Inr (1, a', settings')))
      | _ \<Rightarrow> Inr (0, a, settings))"

section \<open>Reference functions for the statements\<close>

definition trim_spec :: "string \<Rightarrow> string" where
  \<comment> \<open>a string without its leading and trailing white space, as the specification words it\<close>
  "trim_spec s = rev (dropWhile isspace (rev (dropWhile isspace s)))"

definition pair_line :: "Pair \<Rightarrow> string" where
  \<comment> \<open>the line that the format \<open>"%s = %s\n"\<close> writes for a pair\<close>
  "pair_line pair = key pair @ '' = '' @ value pair @ [newline]"

definition no_outer_space :: "string \<Rightarrow> bool" where
  \<comment> \<open>neither the first nor the last character is white space\<close>
  "no_outer_space s = (s = [] \<or> (\<not> isspace (hd s) \<and> \<not> isspace (last s)))"

definition valid_store :: "Settings \<Rightarrow> bool" where
  \<comment> \<open>the stores of the bounded variant: C strings that fit their arrays, under distinct keys\<close>
  "valid_store s =
     (distinct (map key s) \<and>
      (\<forall>pair\<in>set s. length (key pair) < CONFIG_KEY_LENGTH \<and> length (value pair) < CONFIG_VALUE_LENGTH
          \<and> NUL \<notin> set (key pair) \<and> NUL \<notin> set (value pair)))"

definition saveable :: "Pair \<Rightarrow> bool" where
  \<comment> \<open>a pair whose line reads back as it was written\<close>
  "saveable pair =
     (key pair \<noteq> [] \<and> no_outer_space (key pair) \<and> no_outer_space (value pair)
      \<and> CHR ''='' \<notin> set (key pair) \<and> CHR ''='' \<notin> set (value pair)
      \<and> newline \<notin> set (key pair) \<and> newline \<notin> set (value pair))"

definition empty_disk :: filesystem where
  \<comment> \<open>a file system without files, on which every path but \<open>ro\<close> can be opened for writing\<close>
  "empty_disk = \<lparr>files = (\<lambda>p. None), unwritable = (\<lambda>p. p = ''ro'')\<rparr>"

definition store_map :: "Settings \<Rightarrow> string \<Rightarrow> string option" where
  \<comment> \<open>the key-to-value mapping that a store stands for\<close>
  "store_map s = map_of (map (\<lambda>pair. (key pair, value pair)) s)"

fun set_strings :: "alloc \<Rightarrow> Settings option \<Rightarrow> (string \<times> string) list \<Rightarrow> alloc \<times> Settings option" where
  \<comment> \<open>a sequence of settings_set_string calls, one per key and value of the list\<close>
  "set_strings a st [] = (a, st)"
| "set_strings a st ((k, v) # calls) =
     (case settings_set_string a st (Some k) (Some v) of
        (r, a', st') \<Rightarrow> set_strings a' st' calls)"

fun successful_sets :: "alloc \<Rightarrow> Settings option \<Rightarrow> (string \<times> string) list \<Rightarrow> (string \<times> string) list" where
  \<comment> \<open>the calls of the sequence that return 1, in call order\<close>
  "successful_sets a st [] = []"
| "successful_sets a st ((k, v) # calls) =
     (case settings_set_string a st (Some k) (Some v) of
        (r, a', st') \<Rightarrow> (if r = 1 then [(k, v)] else []) @ successful_sets a' st' calls)"

section \<open>trim on a character array\<close>

lemma isspace_NUL: "\<not> isspace NUL"
  by (simp add: isspace_def NUL_def)

lemma rd_array:
  "length s < SIZE_MAX \<Longrightarrow>
   rd (s @ [NUL]) i = (if i < length s then Inr (s ! i)
                       else if i = length s then Inr NUL else Inl OutOfBounds)"
  by (auto simp: rd_def nth_append)

lemma cstr_array: "NUL \<notin> set s \<Longrightarrow> cstr (s @ NUL # t) = s"
  by (induction s) (auto simp: cstr_def)

lemma strlen_array: "NUL \<notin> set s \<Longrightarrow> strlen (s @ [NUL]) = Inr (length s)"
  by (simp add: strlen_def cstr_array)

lemma trim_begin_array:
  assumes "length s < SIZE_MAX" and "i \<le> length s" and "\<forall>j<i. isspace (s ! j)"
  shows "\<exists>b. trim_begin (s @ [NUL]) i = Inr b \<and> i \<le> b \<and> b \<le> length s
             \<and> (\<forall>j<b. isspace (s ! j)) \<and> (b < length s \<longrightarrow> \<not> isspace (s ! b))"
  using assms(2,3)
proof (induction "length s - i" arbitrary: i)
  case 0
  then have "i = length s" by simp
  with assms(1) 0 show ?case
    by (subst trim_begin.simps) (simp add: rd_array isspace_NUL)
next
  case (Suc n)
  then have lt: "i < length s" by simp
  show ?case
  proof (cases "isspace (s ! i)")
    case True
    have sp: "\<forall>j<i + 1. isspace (s ! j)"
      using Suc.prems(2) True by (auto simp: less_Suc_eq)
    have "n = length s - (i + 1)"
      using Suc.hyps(2) by simp
    from Suc.hyps(1) [OF this _ sp] lt
    obtain b where "trim_begin (s @ [NUL]) (i + 1) = Inr b" "i + 1 \<le> b" "b \<le> length s"
      "\<forall>j<b. isspace (s ! j)" "b < length s \<longrightarrow> \<not> isspace (s ! b)"
      by auto
    with assms(1) lt True show ?thesis
      by (subst trim_begin.simps) (auto simp: rd_array)
  next
    case False
    with assms(1) lt Suc.prems show ?thesis
      by (subst trim_begin.simps) (simp add: rd_array)
  qed
qed

lemma trim_end_array:
  assumes "length s < SIZE_MAX" and "b \<le> e" and "e < length s" and "\<not> isspace (s ! b)"
  shows "\<exists>e'. trim_end (s @ [NUL]) b e = Inr e' \<and> b \<le> e' \<and> e' \<le> e
              \<and> \<not> isspace (s ! e') \<and> (\<forall>j. e' < j \<and> j \<le> e \<longrightarrow> isspace (s ! j))"
  using assms(2,3)
proof (induction e)
  case 0
  with assms(1,4) show ?case
    by (subst trim_end.simps) (auto simp: rd_array)
next
  case (Suc e)
  show ?case
  proof (cases "isspace (s ! Suc e)")
    case False
    with assms(1) Suc.prems show ?thesis
      by (subst trim_end.simps) (auto simp: rd_array)
  next
    case True
    with assms(4) Suc.prems have be: "b \<le> e"
      by (cases "b = Suc e") auto
    with Suc.IH Suc.prems obtain e' where e': "trim_end (s @ [NUL]) b e = Inr e'" "b \<le> e'" "e' \<le> e"
      "\<not> isspace (s ! e')" "\<forall>j. e' < j \<and> j \<le> e \<longrightarrow> isspace (s ! j)"
      by auto
    have "\<forall>j. e' < j \<and> j \<le> Suc e \<longrightarrow> isspace (s ! j)"
      using e'(5) True by (auto simp: le_Suc_eq)
    with assms(1) Suc.prems True e' show ?thesis
      by (subst trim_end.simps) (auto simp: rd_array size_dec_def)
  qed
qed

lemma trim_shift_array:
  assumes "length buf \<le> SIZE_MAX" and "e < length buf" and "b \<le> i" and "i \<le> e + 1"
  shows "\<exists>buf'. trim_shift buf b e i = Inr (buf', e + 1) \<and> length buf' = length buf
           \<and> (\<forall>j<length buf. buf' ! j = (if i \<le> j + b \<and> j + b \<le> e then buf ! (j + b) else buf ! j))"
  using assms
proof (induction "e + 1 - i" arbitrary: i buf)
  case 0
  then have "i = e + 1" by simp
  then show ?case
    by (subst trim_shift.simps) auto
next
  case (Suc n)
  then have ie: "i \<le> e" by simp
  let ?buf1 = "buf[i - b := buf ! i]"
  have "n = e + 1 - (i + 1)"
    using Suc.hyps(2) by simp
  from Suc.hyps(1) [OF this, of ?buf1] Suc.prems ie
  obtain buf' where b': "trim_shift ?buf1 b e (i + 1) = Inr (buf', e + 1)" "length buf' = length buf"
    "\<forall>j<length buf. buf' ! j = (if i + 1 \<le> j + b \<and> j + b \<le> e then ?buf1 ! (j + b) else ?buf1 ! j)"
    by auto
  have "\<forall>j<length buf. buf' ! j = (if i \<le> j + b \<and> j + b \<le> e then buf ! (j + b) else buf ! j)"
  proof (intro allI impI)
    fix j assume j: "j < length buf"
    show "buf' ! j = (if i \<le> j + b \<and> j + b \<le> e then buf ! (j + b) else buf ! j)"
      using b'(3) j Suc.prems ie by (auto simp: nth_list_update)
  qed
  with b' Suc.prems ie show ?case
    by (subst trim_shift.simps) (auto simp: rd_def wr_def)
qed


lemma trim_spec_spaces: "\<forall>x\<in>set s. isspace x \<Longrightarrow> trim_spec s = []"
proof -
  assume "\<forall>x\<in>set s. isspace x"
  then have d: "dropWhile isspace s = []"
    by simp
  show ?thesis
    unfolding trim_spec_def d by simp
qed

lemma trim_spec_sandwich:
  assumes "\<forall>x\<in>set A. isspace x" and "\<forall>x\<in>set Z. isspace x"
    and "M \<noteq> []" and "\<not> isspace (hd M)" and "\<not> isspace (last M)"
  shows "trim_spec (A @ M @ Z) = M"
proof -
  from assms(3,4) have "dropWhile isspace (M @ Z) = M @ Z"
    by (cases M) auto
  with assms(1) have front: "dropWhile isspace (A @ M @ Z) = M @ Z"
    using dropWhile_append2 [of A isspace "M @ Z"] by auto
  from assms(3) obtain xs x where "M = xs @ [x]"
    by (cases M rule: rev_cases) auto
  with assms(5) have "dropWhile isspace (rev M) = rev M"
    by simp
  with assms(2) have "dropWhile isspace (rev Z @ rev M) = rev M"
    using dropWhile_append2 [of "rev Z" isspace "rev M"] by auto
  with front show ?thesis
    by (simp add: trim_spec_def)
qed

lemma trim_array:
  assumes ne: "s \<noteq> []" and nn: "NUL \<notin> set s" and len: "length s < SIZE_MAX"
  shows "\<exists>buf. trim (Some (s @ [NUL])) = Inr (Some buf) \<and> cstr buf = trim_spec s"
proof -
  let ?buf = "s @ [NUL]"
  from trim_begin_array [OF len, of 0]
  obtain b where b: "trim_begin ?buf 0 = Inr b" "b \<le> length s" "\<forall>j<b. isspace (s ! j)"
    "b < length s \<longrightarrow> \<not> isspace (s ! b)"
    by auto
  from ne have dec: "size_dec (length s) = length s - 1"
    by (simp add: size_dec_def)
  from ne have pos: "0 < length s"
    by simp
  show ?thesis
  proof (cases "b = length s")
    case True
    with pos have nle: "\<not> b \<le> length s - 1"
      by arith
    then have e: "trim_end ?buf b (length s - 1) = Inr (length s - 1)"
      by (subst trim_end.simps) simp
    from nle have sh: "trim_shift ?buf b (length s - 1) b = Inr (?buf, b)"
      by (subst trim_shift.simps) simp
    from len have w: "wr ?buf 0 NUL = Inr (?buf[0 := NUL])"
      by (simp add: wr_def)
    have c: "cstr (?buf[0 := NUL]) = []"
      by (cases s) (simp_all add: cstr_def)
    from True b(3) have "\<forall>x\<in>set s. isspace x"
      by (auto simp: in_set_conv_nth)
    then have "trim_spec s = []"
      by (rule trim_spec_spaces)
    with e sh w c b(1) dec nn show ?thesis
      by (simp add: trim_def strlen_array)
  next
    case False
    with b have blt: "b < length s" and nsb: "\<not> isspace (s ! b)"
      by auto
    from blt have "b \<le> length s - 1" "length s - 1 < length s"
      by arith+
    from trim_end_array [OF len this nsb]
    obtain e where e: "trim_end ?buf b (length s - 1) = Inr e" "b \<le> e" "e \<le> length s - 1"
      "\<not> isspace (s ! e)" "\<forall>j. e < j \<and> j \<le> length s - 1 \<longrightarrow> isspace (s ! j)"
      by auto
    from e blt have elt: "e < length s"
      by simp
    from trim_shift_array [of ?buf e b b] len elt e(2)
    obtain buf' where buf': "trim_shift ?buf b e b = Inr (buf', e + 1)" "length buf' = length ?buf"
      "\<forall>j<length ?buf. buf' ! j = (if b \<le> j + b \<and> j + b \<le> e then ?buf ! (j + b) else ?buf ! j)"
      by auto
    let ?k = "e + 1 - b"
    let ?M = "take ?k (drop b s)"
    let ?buf'' = "buf'[?k := NUL]"
    from buf'(2) len elt have w: "wr buf' ?k NUL = Inr ?buf''"
      by (simp add: wr_def)
    have klen: "?k < length ?buf''"
      using buf'(2) elt by simp
    have eq1: "take ?k ?buf'' = ?M"
    proof (rule nth_equalityI)
      show "length (take ?k ?buf'') = length ?M"
        using buf'(2) elt e(2) by simp
    next
      fix j assume "j < length (take ?k ?buf'')"
      then have j: "j < ?k" by simp
      with elt have "j + b \<le> e" "j < length ?buf" "j + b < length s"
        by simp_all
      with buf'(3) have "buf' ! j = s ! (j + b)"
        by (simp add: nth_append)
      with j elt show "take ?k ?buf'' ! j = ?M ! j"
        by (simp add: add.commute)
    qed
    have eq2: "?buf'' ! ?k = NUL"
      using klen by simp
    from nn have nnM: "NUL \<notin> set ?M"
      by (meson in_set_dropD in_set_takeD)
    have "cstr ?buf'' = cstr (take ?k ?buf'' @ ?buf'' ! ?k # drop (Suc ?k) ?buf'')"
      by (rule arg_cong [OF id_take_nth_drop [OF klen]])
    also have "\<dots> = cstr (?M @ NUL # drop (Suc ?k) ?buf'')"
      by (simp only: eq1 eq2)
    also have "\<dots> = ?M"
      using nnM by (rule cstr_array)
    finally have c: "cstr ?buf'' = ?M" .
    have split: "s = take b s @ ?M @ drop (e + 1) s"
    proof -
      have "s = take b s @ drop b s"
        by simp
      also have "drop b s = ?M @ drop ?k (drop b s)"
        by (rule append_take_drop_id [symmetric])
      also have "drop ?k (drop b s) = drop (e + 1) s"
        using e(2) by simp
      finally show ?thesis .
    qed
    have A: "\<forall>x\<in>set (take b s). isspace x"
      using b(2,3) by (auto simp: in_set_conv_nth)
    have Z: "\<forall>x\<in>set (drop (e + 1) s). isspace x"
    proof
      fix x assume "x \<in> set (drop (e + 1) s)"
      then obtain j where "j < length s - (e + 1)" "x = s ! (e + 1 + j)"
        by (auto simp: in_set_conv_nth)
      with e(5) show "isspace x"
        by simp
    qed
    have Mne: "?M \<noteq> []"
      using blt e(2) by simp
    have hdM: "hd ?M = s ! b"
      using blt e(2) by (simp add: hd_drop_conv_nth)
    have lastM: "last ?M = s ! e"
    proof -
      have "last ?M = ?M ! (length ?M - 1)"
        using Mne by (rule last_conv_nth)
      also have "length ?M = ?k"
        using elt e(2) by simp
      also have "?M ! (?k - 1) = s ! e"
        using elt e(2) by simp
      finally show ?thesis .
    qed
    from trim_spec_sandwich [OF A Z Mne] hdM lastM nsb e(4) split
    have "trim_spec s = ?M"
      by simp
    with b(1) e(1) buf'(1) w c dec nn show ?thesis
      by (simp add: trim_def strlen_array)
  qed
qed

text \<open>
  C7. trim is to remove all leading and trailing white space, to turn an empty or all-blank
  string into the empty string, and to do nothing for a null argument. On the empty string
  the code computes \<open>end = strlen(str) - 1\<close>, which wraps around to \<open>SIZE_MAX\<close>, and then
  reads \<open>str[end]\<close> outside the array: it does not return the empty string.
\<close>

theorem trim_empty_string_out_of_bounds:
  "trim (Some (to_array [])) = Inl OutOfBounds"
  by (simp add: trim_def to_array_def strlen_def cstr_def NUL_def size_dec_def SIZE_MAX_def
       trim_begin.simps trim_end.simps rd_def isspace_def)

text \<open>
  On every other C string trim returns, and the array then holds the string without its
  leading and trailing white space (the empty string when all of it is white space); a null
  argument is left alone.
\<close>

lemma trim_nonempty:
  assumes "s \<noteq> []" and "NUL \<notin> set s" and "length s < SIZE_MAX"
  shows "\<exists>buf. trim (Some (to_array s)) = Inr (Some buf) \<and> cstr buf = trim_spec s"
  using trim_array [OF assms] by (simp add: to_array_def)

lemma trim_nonempty_example:
  "''  ''  \<noteq> [] \<and> NUL \<notin> set ''  '' \<and> length ''  '' < SIZE_MAX
   \<and> (\<exists>buf. trim (Some (to_array ''  '')) = Inr (Some buf) \<and> cstr buf = [])"
  using trim_nonempty [of "''  ''"]
  by (simp add: NUL_def SIZE_MAX_def trim_spec_def isspace_def)

lemma trim_null: "trim None = Inr None"
  by (simp add: trim_def)

section \<open>Lookups on a null store\<close>

text \<open>
  C9. With a null store handle, get_string, get_int and get_float return the default they
  were given, for every key (null included) and every default, in both variants.
\<close>

theorem getters_null_store:
  "settings_get_string None k d = d
   \<and> settings_get_int None k n = Inr n
   \<and> settings_get_float atof None k x = x
   \<and> settings_get_string_dyn None k d = d
   \<and> settings_get_int_dyn None k n = Inr n
   \<and> settings_get_float_dyn atof' None k x = x"
  by (simp add: settings_get_string_def settings_get_int_def settings_get_float_def
      settings_get_string_dyn_def settings_get_int_dyn_def settings_get_float_dyn_def
      find_pair_def find_pair_dyn_def)

section \<open>Saving leaves the store alone\<close>

lemma save_pairs_dyn_total:
  "\<forall>pair \<in> set s. key_dyn pair \<noteq> None \<and> value_dyn pair \<noteq> None
   \<Longrightarrow> \<exists>out'. save_pairs_dyn s out = Inr out'"
  by (induction s arbitrary: out) auto

text \<open>
  C10. settings_save never modifies the store: whatever the store and the path, and also
  when the file cannot be opened, the sequence of pairs after the call is the one before it.
  In the dynamic variant the call returns whenever no key or value of the store is null, and
  whenever it returns the store is the same.
\<close>

theorem settings_save_store_unchanged:
  "snd (snd (settings_save fs settings path)) = settings
   \<and> (\<forall>r fs' settings'. settings_save_dyn fs dsettings path = Inr (r, fs', settings')
         \<longrightarrow> settings' = dsettings)
   \<and> ((\<forall>pair \<in> set (case dsettings of None \<Rightarrow> [] | Some s \<Rightarrow> s).
          key_dyn pair \<noteq> None \<and> value_dyn pair \<noteq> None)
         \<longrightarrow> (\<exists>r fs'. settings_save_dyn fs dsettings path = Inr (r, fs', dsettings)))"
proof (intro conjI allI impI)
  show "snd (snd (settings_save fs settings path)) = settings"
    by (simp add: settings_save_def split: option.splits)
next
  fix r fs' settings'
  assume "settings_save_dyn fs dsettings path = Inr (r, fs', settings')"
  then show "settings' = dsettings"
    by (auto simp: settings_save_dyn_def split: option.splits if_splits sum.splits)
next
  assume nn: "\<forall>pair \<in> set (case dsettings of None \<Rightarrow> [] | Some s \<Rightarrow> s).
          key_dyn pair \<noteq> None \<and> value_dyn pair \<noteq> None"
  show "\<exists>r fs'. settings_save_dyn fs dsettings path = Inr (r, fs', dsettings)"
  proof (cases dsettings)
    case None
    then show ?thesis by (simp add: settings_save_dyn_def)
  next
    case (Some s)
    with nn obtain out where "save_pairs_dyn s [] = Inr out"
      using save_pairs_dyn_total [of s "[]"] by auto
    with Some show ?thesis
      by (cases path) (simp_all add: settings_save_dyn_def)
  qed
qed

theorem settings_save_store_unchanged_witness:
  "settings_save_dyn empty_disk
       (Some [\<lparr>key_dyn = Some ''foo'', value_dyn = Some ''abc''\<rparr>]) (Some ''cfg'')
     = Inr (1, empty_disk\<lparr>files := (files empty_disk)(''cfg'' \<mapsto> ''foo = abc'' @ [newline])\<rparr>,
            Some [\<lparr>key_dyn = Some ''foo'', value_dyn = Some ''abc''\<rparr>])
   \<and> snd (snd (settings_save empty_disk
       (Some [\<lparr>key = ''foo'', value = ''abc''\<rparr>]) (Some ''cfg'')))
     = Some [\<lparr>key = ''foo'', value = ''abc''\<rparr>]"
  using settings_save_store_unchanged
    [of empty_disk "Some [\<lparr>key = ''foo'', value = ''abc''\<rparr>]" "Some ''cfg''"
        "Some [\<lparr>key_dyn = Some ''foo'', value_dyn = Some ''abc''\<rparr>]"]
  by (simp add: settings_save_dyn_def empty_disk_def)

lemma settings_save_unwritable_example:
  "settings_save empty_disk (Some [\<lparr>key = ''foo'', value = ''abc''\<rparr>]) (Some ''ro'')
     = (0, empty_disk, Some [\<lparr>key = ''foo'', value = ''abc''\<rparr>])"
  by (simp add: settings_save_def empty_disk_def)

section \<open>The length check of the bounded store\<close>

text \<open>
  C8. In the bounded variant settings_set_string fails and changes nothing (neither the store
  nor the allocator is touched) when the key has at least CONFIG_KEY_LENGTH characters or the
  value at least CONFIG_VALUE_LENGTH; shorter keys and values pass the check, and the call
  then fails only when a new pair is needed and its allocation fails.
\<close>

theorem set_string_length_check:
  "(CONFIG_KEY_LENGTH \<le> length k \<or> CONFIG_VALUE_LENGTH \<le> length v
      \<longrightarrow> settings_set_string a (Some s) (Some k) (Some v) = (0, a, Some s))
   \<and> (length k < CONFIG_KEY_LENGTH \<and> length v < CONFIG_VALUE_LENGTH
      \<longrightarrow> fst (settings_set_string a (Some s) (Some k) (Some v))
           = (if find_pair (Some s) (Some k) = None \<and> \<not> fst (memory_malloc a) then 0 else 1))"
  by (auto simp: settings_set_string_def create_pair_def
           split: option.splits prod.splits bool.splits)

theorem set_string_length_check_witness:
  "settings_set_string [] (Some [\<lparr>key = ''foo'', value = ''abc''\<rparr>])
       (Some (replicate 128 (CHR ''X''))) (Some ''abc'')
     = (0, [], Some [\<lparr>key = ''foo'', value = ''abc''\<rparr>])
   \<and> settings_set_string [] (Some [\<lparr>key = ''foo'', value = ''abc''\<rparr>])
       (Some ''foo'') (Some (replicate 128 (CHR ''X'')))
     = (0, [], Some [\<lparr>key = ''foo'', value = ''abc''\<rparr>])
   \<and> fst (settings_set_string [] (Some [\<lparr>key = ''foo'', value = ''abc''\<rparr>])
       (Some (replicate 127 (CHR ''X''))) (Some (replicate 127 (CHR ''Y'')))) = 1"
  using set_string_length_check
          [of "replicate 128 (CHR ''X'')" "''abc''" "[]" "[\<lparr>key = ''foo'', value = ''abc''\<rparr>]"]
        set_string_length_check
          [of "''foo''" "replicate 128 (CHR ''X'')" "[]" "[\<lparr>key = ''foo'', value = ''abc''\<rparr>]"]
        set_string_length_check
          [of "replicate 127 (CHR ''X'')" "replicate 127 (CHR ''Y'')" "[]"
              "[\<lparr>key = ''foo'', value = ''abc''\<rparr>]"]
  by (simp add: CONFIG_KEY_LENGTH_def CONFIG_VALUE_LENGTH_def)

section \<open>Position of a pair in the bounded store\<close>

lemma save_pairs_lines: "save_pairs s out = out @ concat (map pair_line s)"
  by (induction s arbitrary: out) (simp_all add: pair_line_def)

lemma keys_match_short:
  assumes "length k < CONFIG_KEY_LENGTH"
  shows "keys_match (Some k') (Some k) = (k' = k)"
proof (cases "length k' < CONFIG_KEY_LENGTH")
  case True
  with assms show ?thesis
    by (simp add: keys_match_def)
next
  case False
  have "take CONFIG_KEY_LENGTH k' \<noteq> take CONFIG_KEY_LENGTH k"
  proof
    assume "take CONFIG_KEY_LENGTH k' = take CONFIG_KEY_LENGTH k"
    then have "length (take CONFIG_KEY_LENGTH k') = length (take CONFIG_KEY_LENGTH k)"
      by (rule arg_cong)
    with assms False show False
      by simp
  qed
  moreover from False assms have "k' \<noteq> k"
    by auto
  ultimately show ?thesis
    by (simp add: keys_match_def)
qed

lemma find_from_None:
  "length k < CONFIG_KEY_LENGTH \<Longrightarrow> (find_from s i (Some k) = None) = (k \<notin> key ` set s)"
  by (induction s arbitrary: i) (auto simp: keys_match_short)

lemma find_from_Some:
  "length k < CONFIG_KEY_LENGTH \<Longrightarrow> find_from s i (Some k) = Some (j, pair) \<Longrightarrow>
   \<exists>n<length s. j = i + n \<and> pair = s ! n \<and> key (s ! n) = k \<and> (\<forall>m<n. key (s ! m) \<noteq> k)"
proof (induction s arbitrary: i)
  case Nil
  then show ?case by simp
next
  case (Cons p ps)
  show ?case
  proof (cases "key p = k")
    case True
    with Cons.prems show ?thesis
      by (auto simp: keys_match_short intro!: exI [of _ 0])
  next
    case False
    with Cons.prems have "find_from ps (i + 1) (Some k) = Some (j, pair)"
      by (simp add: keys_match_short)
    from Cons.IH [OF Cons.prems(1) this]
    obtain n where n: "n < length ps" "j = i + 1 + n" "pair = ps ! n" "key (ps ! n) = k"
      "\<forall>m<n. key (ps ! m) \<noteq> k"
      by auto
    have "\<forall>m<Suc n. key ((p # ps) ! m) \<noteq> k"
      using False n(5) by (auto simp: nth_Cons split: nat.splits)
    with n show ?thesis
      by (intro exI [of _ "Suc n"]) auto
  qed
qed

lemma set_string_effect:
  assumes "settings_set_string a (Some s) (Some k) (Some v) = (1, a', Some s')"
  shows "length k < CONFIG_KEY_LENGTH \<and> length v < CONFIG_VALUE_LENGTH
         \<and> (if k \<in> key ` set s
             then \<exists>i<length s. key (s ! i) = k \<and> (\<forall>m<i. key (s ! m) \<noteq> k)
                    \<and> s' = s[i := \<lparr>key = k, value = v\<rparr>]
             else s' = s @ [\<lparr>key = k, value = v\<rparr>])"
proof -
  from assms have len: "length k < CONFIG_KEY_LENGTH" "length v < CONFIG_VALUE_LENGTH"
    by (auto simp: settings_set_string_def split: if_splits)
  then have cp: "copy_pair k v = \<lparr>key = k, value = v\<rparr>"
    by (simp add: copy_pair_def)
  show ?thesis
  proof (cases "find_from s 0 (Some k)")
    case None
    with len have nk: "k \<notin> key ` set s"
      by (simp add: find_from_None)
    from assms None len cp have "s' = s @ [\<lparr>key = k, value = v\<rparr>]"
      by (auto simp: settings_set_string_def find_pair_def create_pair_def
               split: prod.splits bool.splits)
    with nk len show ?thesis
      by simp
  next
    case (Some r)
    obtain j pair where r: "r = (j, pair)"
      by (cases r)
    from find_from_Some [OF len(1) Some [unfolded r]]
    obtain i where i: "i < length s" "j = i" "key (s ! i) = k" "\<forall>m<i. key (s ! m) \<noteq> k"
      by auto
    from assms Some r len cp i have s': "s' = s[i := \<lparr>key = k, value = v\<rparr>]"
      by (simp add: settings_set_string_def find_pair_def)
    from i have "k \<in> key ` set s"
      by (metis imageI nth_mem)
    with i s' len show ?thesis
      by auto
  qed
qed

lemma set_string_replace:
  assumes "length k < CONFIG_KEY_LENGTH" and "length v < CONFIG_VALUE_LENGTH"
    and "k \<in> key ` set s"
  shows "\<exists>i<length s. key (s ! i) = k \<and> (\<forall>m<i. key (s ! m) \<noteq> k)
           \<and> settings_set_string a (Some s) (Some k) (Some v)
               = (1, a, Some (s[i := \<lparr>key = k, value = v\<rparr>]))"
proof -
  from assms(1,3) have "find_from s 0 (Some k) \<noteq> None"
    by (simp add: find_from_None)
  then obtain j pair where f: "find_from s 0 (Some k) = Some (j, pair)"
    by auto
  from find_from_Some [OF assms(1) f]
  obtain i where i: "i < length s" "j = i" "key (s ! i) = k" "\<forall>m<i. key (s ! m) \<noteq> k"
    by auto
  from assms(1,2) have "copy_pair k v = \<lparr>key = k, value = v\<rparr>"
    by (simp add: copy_pair_def)
  with f i(2) assms(1,2)
  have "settings_set_string a (Some s) (Some k) (Some v)
          = (1, a, Some (s[i := \<lparr>key = k, value = v\<rparr>]))"
    by (simp add: settings_set_string_def find_pair_def)
  with i show ?thesis
    by auto
qed

lemma set_string_append:
  assumes "length k < CONFIG_KEY_LENGTH" and "length v < CONFIG_VALUE_LENGTH"
    and "k \<notin> key ` set s"
  shows "settings_set_string a (Some s) (Some k) (Some v)
           = (case memory_malloc a of
                (True, a') \<Rightarrow> (1, a', Some (s @ [\<lparr>key = k, value = v\<rparr>]))
              | (False, a') \<Rightarrow> (0, a', Some s))"
proof -
  from assms(1,3) have "find_from s 0 (Some k) = None"
    by (simp add: find_from_None)
  moreover from assms(1,2) have "copy_pair k v = \<lparr>key = k, value = v\<rparr>"
    by (simp add: copy_pair_def)
  ultimately show ?thesis
    using assms(1,2)
    by (simp add: settings_set_string_def find_pair_def create_pair_def
             split: prod.splits bool.splits)
qed

lemma settings_save_lines:
  "\<not> unwritable fs p \<Longrightarrow>
   settings_save fs (Some s) (Some p)
     = (1, fs\<lparr>files := (files fs)(p \<mapsto> concat (map pair_line s))\<rparr>, Some s)"
  by (simp add: settings_save_def save_pairs_lines)

lemma set_strings_A_B_C_B:
  assumes "length ka < CONFIG_KEY_LENGTH" and "length k < CONFIG_KEY_LENGTH"
    and "length kc < CONFIG_KEY_LENGTH"
    and "length va < CONFIG_VALUE_LENGTH" and "length vb < CONFIG_VALUE_LENGTH"
    and "length vc < CONFIG_VALUE_LENGTH" and "length v < CONFIG_VALUE_LENGTH"
    and "distinct [ka, k, kc]"
    and "memory_malloc a = (True, a1)" and "memory_malloc a1 = (True, a2)"
    and "memory_malloc a2 = (True, a3)"
  shows "set_strings a (Some []) [(ka, va), (k, vb), (kc, vc), (k, v)]
           = (a3, Some [\<lparr>key = ka, value = va\<rparr>, \<lparr>key = k, value = v\<rparr>, \<lparr>key = kc, value = vc\<rparr>])"
proof -
  have 1: "settings_set_string a (Some []) (Some ka) (Some va)
             = (1, a1, Some [\<lparr>key = ka, value = va\<rparr>])"
    using assms(1,4,9) by (subst set_string_append) auto
  have 2: "settings_set_string a1 (Some [\<lparr>key = ka, value = va\<rparr>]) (Some k) (Some vb)
             = (1, a2, Some [\<lparr>key = ka, value = va\<rparr>, \<lparr>key = k, value = vb\<rparr>])"
    using assms(1,2,5,8,10) by (subst set_string_append) auto
  have 3: "settings_set_string a2 (Some [\<lparr>key = ka, value = va\<rparr>, \<lparr>key = k, value = vb\<rparr>])
               (Some kc) (Some vc)
             = (1, a3, Some [\<lparr>key = ka, value = va\<rparr>, \<lparr>key = k, value = vb\<rparr>,
                             \<lparr>key = kc, value = vc\<rparr>])"
    using assms(1-3,6,8,11) by (subst set_string_append) auto
  have "copy_pair k v = \<lparr>key = k, value = v\<rparr>"
    using assms by (simp add: copy_pair_def)
  then have 4: "settings_set_string a3
               (Some [\<lparr>key = ka, value = va\<rparr>, \<lparr>key = k, value = vb\<rparr>, \<lparr>key = kc, value = vc\<rparr>])
               (Some k) (Some v)
             = (1, a3, Some [\<lparr>key = ka, value = va\<rparr>, \<lparr>key = k, value = v\<rparr>,
                             \<lparr>key = kc, value = vc\<rparr>])"
    using assms by (simp add: settings_set_string_def find_pair_def keys_match_short)
  from 1 2 3 4 show ?thesis
    by simp
qed

text \<open>
  C6. For a key and a value that fit their arrays: when the store has the key,
  settings_set_string returns 1, replaces the value of the first pair with that key where it
  stands and changes neither the sequence of keys nor the allocator; when the store does not
  have the key and the allocation succeeds, it returns 1 and the new pair is appended at the
  end; when the allocation fails, it returns 0 and the store is as before. settings_save
  writes one line per pair, in the order of the sequence. So inserting distinct keys A, B and
  C into the empty store and then replacing the value of B gives the pairs in the order
  A, B, C, and settings_save writes their lines in that order.
\<close>

theorem set_string_position:
  assumes "length k < CONFIG_KEY_LENGTH" and "length v < CONFIG_VALUE_LENGTH"
  shows "(k \<in> key ` set s \<longrightarrow>
            (\<exists>i<length s. key (s ! i) = k \<and> (\<forall>m<i. key (s ! m) \<noteq> k)
                \<and> settings_set_string a (Some s) (Some k) (Some v)
                    = (1, a, Some (s[i := \<lparr>key = k, value = v\<rparr>]))
                \<and> map key (s[i := \<lparr>key = k, value = v\<rparr>]) = map key s))
       \<and> (k \<notin> key ` set s \<longrightarrow> memory_malloc a = (True, a') \<longrightarrow>
            settings_set_string a (Some s) (Some k) (Some v)
              = (1, a', Some (s @ [\<lparr>key = k, value = v\<rparr>])))
       \<and> (k \<notin> key ` set s \<longrightarrow> memory_malloc a = (False, a') \<longrightarrow>
            settings_set_string a (Some s) (Some k) (Some v) = (0, a', Some s))
       \<and> (\<not> unwritable fs p \<longrightarrow>
            settings_save fs (Some s) (Some p)
              = (1, fs\<lparr>files := (files fs)(p \<mapsto> concat (map pair_line s))\<rparr>, Some s))
       \<and> (length ka < CONFIG_KEY_LENGTH \<and> length kc < CONFIG_KEY_LENGTH
            \<and> length va < CONFIG_VALUE_LENGTH \<and> length vb < CONFIG_VALUE_LENGTH
            \<and> length vc < CONFIG_VALUE_LENGTH \<and> distinct [ka, k, kc]
            \<and> memory_malloc a = (True, a1) \<and> memory_malloc a1 = (True, a2)
            \<and> memory_malloc a2 = (True, a3) \<and> \<not> unwritable fs p \<longrightarrow>
            (\<exists>st. set_strings a (Some []) [(ka, va), (k, vb), (kc, vc), (k, v)] = (a3, Some st)
               \<and> st = [\<lparr>key = ka, value = va\<rparr>, \<lparr>key = k, value = v\<rparr>, \<lparr>key = kc, value = vc\<rparr>]
               \<and> settings_save fs (Some st) (Some p)
                   = (1, fs\<lparr>files := (files fs)(p \<mapsto>
                             ka @ '' = '' @ va @ [newline] @ k @ '' = '' @ v @ [newline]
                             @ kc @ '' = '' @ vc @ [newline])\<rparr>, Some st)))"
proof (intro conjI impI)
  assume "k \<in> key ` set s"
  from set_string_replace [OF assms this, of a]
  obtain i where i: "i < length s" "key (s ! i) = k" "\<forall>m<i. key (s ! m) \<noteq> k"
    "settings_set_string a (Some s) (Some k) (Some v) = (1, a, Some (s[i := \<lparr>key = k, value = v\<rparr>]))"
    by auto
  from i(1,2) have "map key (s[i := \<lparr>key = k, value = v\<rparr>]) = map key s"
    by (simp add: map_update list_update_same_conv)
  with i show "\<exists>i<length s. key (s ! i) = k \<and> (\<forall>m<i. key (s ! m) \<noteq> k)
                \<and> settings_set_string a (Some s) (Some k) (Some v)
                    = (1, a, Some (s[i := \<lparr>key = k, value = v\<rparr>]))
                \<and> map key (s[i := \<lparr>key = k, value = v\<rparr>]) = map key s"
    by auto
next
  assume "k \<notin> key ` set s" and "memory_malloc a = (True, a')"
  moreover from this assms have "find_from s 0 (Some k) = None"
    by (simp add: find_from_None)
  ultimately show "settings_set_string a (Some s) (Some k) (Some v)
              = (1, a', Some (s @ [\<lparr>key = k, value = v\<rparr>]))"
    using assms by (simp add: settings_set_string_def find_pair_def create_pair_def copy_pair_def)
next
  assume "k \<notin> key ` set s" and "memory_malloc a = (False, a')"
  moreover from this assms have "find_from s 0 (Some k) = None"
    by (simp add: find_from_None)
  ultimately show "settings_set_string a (Some s) (Some k) (Some v) = (0, a', Some s)"
    using assms by (simp add: settings_set_string_def find_pair_def create_pair_def)
next
  assume "\<not> unwritable fs p"
  then show "settings_save fs (Some s) (Some p)
              = (1, fs\<lparr>files := (files fs)(p \<mapsto> concat (map pair_line s))\<rparr>, Some s)"
    by (simp add: settings_save_def save_pairs_lines)
next
  assume h: "length ka < CONFIG_KEY_LENGTH \<and> length kc < CONFIG_KEY_LENGTH
            \<and> length va < CONFIG_VALUE_LENGTH \<and> length vb < CONFIG_VALUE_LENGTH
            \<and> length vc < CONFIG_VALUE_LENGTH \<and> distinct [ka, k, kc]
            \<and> memory_malloc a = (True, a1) \<and> memory_malloc a1 = (True, a2)
            \<and> memory_malloc a2 = (True, a3) \<and> \<not> unwritable fs p"
  then have "set_strings a (Some []) [(ka, va), (k, vb), (kc, vc), (k, v)]
           = (a3, Some [\<lparr>key = ka, value = va\<rparr>, \<lparr>key = k, value = v\<rparr>, \<lparr>key = kc, value = vc\<rparr>])"
    using assms set_strings_A_B_C_B [of ka k kc va vb vc v a a1 a2 a3] by simp
  moreover from h have "settings_save fs
       (Some [\<lparr>key = ka, value = va\<rparr>, \<lparr>key = k, value = v\<rparr>, \<lparr>key = kc, value = vc\<rparr>]) (Some p)
     = (1, fs\<lparr>files := (files fs)(p \<mapsto>
                             ka @ '' = '' @ va @ [newline] @ k @ '' = '' @ v @ [newline]
                             @ kc @ '' = '' @ vc @ [newline])\<rparr>,
        Some [\<lparr>key = ka, value = va\<rparr>, \<lparr>key = k, value = v\<rparr>, \<lparr>key = kc, value = vc\<rparr>])"
    by (simp add: settings_save_lines pair_line_def)
  ultimately show "\<exists>st. set_strings a (Some []) [(ka, va), (k, vb), (kc, vc), (k, v)] = (a3, Some st)
               \<and> st = [\<lparr>key = ka, value = va\<rparr>, \<lparr>key = k, value = v\<rparr>, \<lparr>key = kc, value = vc\<rparr>]
               \<and> settings_save fs (Some st) (Some p)
                   = (1, fs\<lparr>files := (files fs)(p \<mapsto>
                             ka @ '' = '' @ va @ [newline] @ k @ '' = '' @ v @ [newline]
                             @ kc @ '' = '' @ vc @ [newline])\<rparr>, Some st)"
    by simp
qed

theorem set_string_position_witness:
  "set_strings [] (Some []) [(''A'', ''1''), (''B'', ''2''), (''C'', ''3''), (''B'', ''new'')]
     = ([], Some [\<lparr>key = ''A'', value = ''1''\<rparr>, \<lparr>key = ''B'', value = ''new''\<rparr>,
                  \<lparr>key = ''C'', value = ''3''\<rparr>])
   \<and> settings_save empty_disk
        (Some [\<lparr>key = ''A'', value = ''1''\<rparr>, \<lparr>key = ''B'', value = ''new''\<rparr>,
               \<lparr>key = ''C'', value = ''3''\<rparr>]) (Some ''cfg'')
     = (1, empty_disk\<lparr>files := (files empty_disk)(''cfg'' \<mapsto>
              ''A = 1'' @ [newline] @ ''B = new'' @ [newline] @ ''C = 3'' @ [newline])\<rparr>,
        Some [\<lparr>key = ''A'', value = ''1''\<rparr>, \<lparr>key = ''B'', value = ''new''\<rparr>,
              \<lparr>key = ''C'', value = ''3''\<rparr>])
   \<and> settings_set_string [False]
        (Some [\<lparr>key = ''A'', value = ''1''\<rparr>, \<lparr>key = ''B'', value = ''2''\<rparr>,
               \<lparr>key = ''C'', value = ''3''\<rparr>]) (Some ''B'') (Some ''new'')
     = (1, [False], Some [\<lparr>key = ''A'', value = ''1''\<rparr>, \<lparr>key = ''B'', value = ''new''\<rparr>,
                          \<lparr>key = ''C'', value = ''3''\<rparr>])
   \<and> settings_set_string []
        (Some [\<lparr>key = ''A'', value = ''1''\<rparr>, \<lparr>key = ''B'', value = ''2''\<rparr>]) (Some ''C'') (Some ''3'')
     = (1, [], Some [\<lparr>key = ''A'', value = ''1''\<rparr>, \<lparr>key = ''B'', value = ''2''\<rparr>,
                     \<lparr>key = ''C'', value = ''3''\<rparr>])
   \<and> settings_set_string [False]
        (Some [\<lparr>key = ''A'', value = ''1''\<rparr>, \<lparr>key = ''B'', value = ''2''\<rparr>]) (Some ''C'') (Some ''3'')
     = (0, [], Some [\<lparr>key = ''A'', value = ''1''\<rparr>, \<lparr>key = ''B'', value = ''2''\<rparr>])"
proof -
  have short: "length ''A'' < CONFIG_KEY_LENGTH" "length ''B'' < CONFIG_KEY_LENGTH"
    "length ''C'' < CONFIG_KEY_LENGTH" "length ''1'' < CONFIG_VALUE_LENGTH"
    "length ''2'' < CONFIG_VALUE_LENGTH" "length ''3'' < CONFIG_VALUE_LENGTH"
    "length ''new'' < CONFIG_VALUE_LENGTH"
    by (simp_all add: CONFIG_KEY_LENGTH_def CONFIG_VALUE_LENGTH_def)
  have disk: "\<not> unwritable empty_disk ''cfg''"
    by (simp add: empty_disk_def)
  from set_string_position [OF short(2,7), where fs = empty_disk and p = "''cfg''"
      and ka = "''A''" and kc = "''C''" and va = "''1''" and vb = "''2''" and vc = "''3''"
      and a = "[]" and ?a1.0 = "[]" and ?a2.0 = "[]" and ?a3.0 = "[]"] short disk
  have seq: "set_strings [] (Some []) [(''A'', ''1''), (''B'', ''2''), (''C'', ''3''), (''B'', ''new'')]
     = ([], Some [\<lparr>key = ''A'', value = ''1''\<rparr>, \<lparr>key = ''B'', value = ''new''\<rparr>,
                  \<lparr>key = ''C'', value = ''3''\<rparr>])"
    and sv: "settings_save empty_disk
        (Some [\<lparr>key = ''A'', value = ''1''\<rparr>, \<lparr>key = ''B'', value = ''new''\<rparr>,
               \<lparr>key = ''C'', value = ''3''\<rparr>]) (Some ''cfg'')
     = (1, empty_disk\<lparr>files := (files empty_disk)(''cfg'' \<mapsto>
              ''A = 1'' @ [newline] @ ''B = new'' @ [newline] @ ''C = 3'' @ [newline])\<rparr>,
        Some [\<lparr>key = ''A'', value = ''1''\<rparr>, \<lparr>key = ''B'', value = ''new''\<rparr>,
              \<lparr>key = ''C'', value = ''3''\<rparr>])"
    by (simp_all add: pair_line_def)
  from set_string_position [OF short(3,6),
      where s = "[\<lparr>key = ''A'', value = ''1''\<rparr>, \<lparr>key = ''B'', value = ''2''\<rparr>]"
      and a = "[]" and a' = "[]"]
  have app: "settings_set_string []
        (Some [\<lparr>key = ''A'', value = ''1''\<rparr>, \<lparr>key = ''B'', value = ''2''\<rparr>]) (Some ''C'') (Some ''3'')
     = (1, [], Some [\<lparr>key = ''A'', value = ''1''\<rparr>, \<lparr>key = ''B'', value = ''2''\<rparr>,
                     \<lparr>key = ''C'', value = ''3''\<rparr>])"
    by simp
  from set_string_position [OF short(3,6),
      where s = "[\<lparr>key = ''A'', value = ''1''\<rparr>, \<lparr>key = ''B'', value = ''2''\<rparr>]"
      and a = "[False]" and a' = "[]"]
  have fail: "settings_set_string [False]
        (Some [\<lparr>key = ''A'', value = ''1''\<rparr>, \<lparr>key = ''B'', value = ''2''\<rparr>]) (Some ''C'') (Some ''3'')
     = (0, [], Some [\<lparr>key = ''A'', value = ''1''\<rparr>, \<lparr>key = ''B'', value = ''2''\<rparr>])"
    by simp
  have mem: "''B'' \<in> key ` set [\<lparr>key = ''A'', value = ''1''\<rparr>, \<lparr>key = ''B'', value = ''2''\<rparr>,
                                   \<lparr>key = ''C'', value = ''3''\<rparr>]"
    by simp
  from set_string_position [OF short(2,7),
      where s = "[\<lparr>key = ''A'', value = ''1''\<rparr>, \<lparr>key = ''B'', value = ''2''\<rparr>,
                  \<lparr>key = ''C'', value = ''3''\<rparr>]"
      and a = "[False]", THEN conjunct1, THEN mp, OF mem]
  obtain i where i:
    "i < length [\<lparr>key = ''A'', value = ''1''\<rparr>, \<lparr>key = ''B'', value = ''2''\<rparr>,
                 \<lparr>key = ''C'', value = ''3''\<rparr>]"
    "key ([\<lparr>key = ''A'', value = ''1''\<rparr>, \<lparr>key = ''B'', value = ''2''\<rparr>,
           \<lparr>key = ''C'', value = ''3''\<rparr>] ! i) = ''B''"
    "settings_set_string [False]
        (Some [\<lparr>key = ''A'', value = ''1''\<rparr>, \<lparr>key = ''B'', value = ''2''\<rparr>,
               \<lparr>key = ''C'', value = ''3''\<rparr>]) (Some ''B'') (Some ''new'')
     = (1, [False], Some ([\<lparr>key = ''A'', value = ''1''\<rparr>, \<lparr>key = ''B'', value = ''2''\<rparr>,
                           \<lparr>key = ''C'', value = ''3''\<rparr>][i := \<lparr>key = ''B'', value = ''new''\<rparr>]))"
    by blast
  from i(1) have "i = 0 \<or> i = 1 \<or> i = 2"
    by (simp add: less_Suc_eq numeral_2_eq_2)
  with i(2) have "i = 1"
    by auto
  with i(3) have rep: "settings_set_string [False]
        (Some [\<lparr>key = ''A'', value = ''1''\<rparr>, \<lparr>key = ''B'', value = ''2''\<rparr>,
               \<lparr>key = ''C'', value = ''3''\<rparr>]) (Some ''B'') (Some ''new'')
     = (1, [False], Some [\<lparr>key = ''A'', value = ''1''\<rparr>, \<lparr>key = ''B'', value = ''new''\<rparr>,
                          \<lparr>key = ''C'', value = ''3''\<rparr>])"
    by simp
  from seq sv rep app fail show ?thesis
    by simp
qed

section \<open>Loading: the split at the equals sign\<close>

lemmas load_eval =
  settings_load_def load_lines.simps fgets_def CONFIG_LINE_LENGTH_def load_line_def strchr_def
  strncpy_def trim_def NUL_def newline_def SIZE_MAX_def size_dec_def isspace_def cstr_def rd_def
  wr_def strlen_def trim_begin.simps trim_end.simps trim_shift.simps settings_set_string_def
  find_pair_def keys_match_def create_pair_def copy_pair_def CONFIG_KEY_LENGTH_def
  CONFIG_VALUE_LENGTH_def

lemmas load_dyn_eval =
  settings_load_dyn_def load_lines_dyn.simps get_line_def get_line_loop.simps fgets_def
  BUFSIZ_def load_line_dyn_def strchr_def strncpy_def trim_def NUL_def newline_def SIZE_MAX_def
  size_dec_def isspace_def cstr_def rd_def wr_def strlen_def trim_begin.simps trim_end.simps
  trim_shift.simps settings_set_string_dyn_def find_pair_dyn_def keys_match_dyn_def
  create_pair_dyn_def copy_pair_dyn_def resize_def memory_realloc_def

lemma strchr_first:
  "c \<notin> set xs \<Longrightarrow> strchr (xs @ c # ys) c = Some (length xs)"
  by (induction xs) (auto simp: strchr_def)

text \<open>
  What the split does, in both variants: for a line with at least one character before the
  first equals sign and at least one after it, the key handed to settings_set_string is the
  text before the equals sign without its last character, trimmed, and the value is the text
  after it without its last character, trimmed.
\<close>

lemma split_arrays:
  assumes "CHR ''='' \<notin> set kt" and "c \<noteq> CHR ''=''"
    and "length kt < SIZE_MAX" and "length vt < SIZE_MAX"
  shows "strchr (kt @ c # CHR ''='' # vt @ [c2]) (CHR ''='') = Some (length kt + 1)"
    and "wr (strncpy (kt @ c # CHR ''='' # vt @ [c2]) (length kt + 1)) (size_dec (length kt + 1)) NUL
           = Inr (kt @ [NUL])"
    and "drop (length kt + 1 + 1) (kt @ c # CHR ''='' # vt @ [c2]) = vt @ [c2]"
    and "wr (strncpy (vt @ [c2]) (length (vt @ [c2]))) (size_dec (length (vt @ [c2]))) NUL
           = Inr (vt @ [NUL])"
proof -
  have "kt @ c # CHR ''='' # vt @ [c2] = (kt @ [c]) @ CHR ''='' # vt @ [c2]"
    by simp
  moreover from assms(1,2) have "CHR ''='' \<notin> set (kt @ [c])"
    by simp
  ultimately show "strchr (kt @ c # CHR ''='' # vt @ [c2]) (CHR ''='') = Some (length kt + 1)"
    using strchr_first [of "CHR ''=''" "kt @ [c]" "vt @ [c2]"] by simp
  from assms(3)
  show "wr (strncpy (kt @ c # CHR ''='' # vt @ [c2]) (length kt + 1)) (size_dec (length kt + 1)) NUL
           = Inr (kt @ [NUL])"
    by (simp add: strncpy_def wr_def size_dec_def)
  show "drop (length kt + 1 + 1) (kt @ c # CHR ''='' # vt @ [c2]) = vt @ [c2]"
    by simp
  from assms(4)
  show "wr (strncpy (vt @ [c2]) (length (vt @ [c2]))) (size_dec (length (vt @ [c2]))) NUL
           = Inr (vt @ [NUL])"
    by (simp add: strncpy_def wr_def size_dec_def)
qed

lemma load_line_split:
  assumes "CHR ''='' \<notin> set kt" and "c \<noteq> CHR ''=''"
    and "kt \<noteq> []" and "NUL \<notin> set kt" and "length kt < SIZE_MAX"
    and "vt \<noteq> []" and "NUL \<notin> set vt" and "length vt < SIZE_MAX"
  shows "load_line a st (kt @ c # CHR ''='' # vt @ [c2])
           = (case settings_set_string a st (Some (trim_spec kt)) (Some (trim_spec vt)) of
                (r, a', st') \<Rightarrow> Inr (a', st'))"
proof -
  note arrays = split_arrays [OF assms(1,2,5,8), of c2]
  from trim_array [OF assms(3,4,5)]
  obtain kb where kb: "trim (Some (kt @ [NUL])) = Inr (Some kb)" "cstr kb = trim_spec kt"
    by auto
  from trim_array [OF assms(6,7,8)]
  obtain vb where vb: "trim (Some (vt @ [NUL])) = Inr (Some vb)" "cstr vb = trim_spec vt"
    by auto
  show ?thesis
    by (simp only: load_line_def arrays option.case Let_def sum.case kb vb option.map)
qed

lemma load_line_dyn_split:
  assumes "CHR ''='' \<notin> set kt" and "c \<noteq> CHR ''=''"
    and "kt \<noteq> []" and "NUL \<notin> set kt" and "length kt < SIZE_MAX"
    and "vt \<noteq> []" and "NUL \<notin> set vt" and "length vt < SIZE_MAX"
  shows "load_line_dyn a st (kt @ c # CHR ''='' # vt @ [c2])
           = (case settings_set_string_dyn a st (Some (trim_spec kt)) (Some (trim_spec vt)) of
                (r, a', st') \<Rightarrow> Inr (a', st'))"
proof -
  note arrays = split_arrays [OF assms(1,2,5,8), of c2]
  from trim_array [OF assms(3,4,5)]
  obtain kb where kb: "trim (Some (kt @ [NUL])) = Inr (Some kb)" "cstr kb = trim_spec kt"
    by auto
  from trim_array [OF assms(6,7,8)]
  obtain vb where vb: "trim (Some (vt @ [NUL])) = Inr (Some vb)" "cstr vb = trim_spec vt"
    by auto
  show ?thesis
    by (simp only: load_line_dyn_def arrays option.case Let_def sum.case kb vb option.map)
qed

text \<open>
  C1. For a line with an equals sign, settings_load is to insert the text before the first
  equals sign as the key and the text after it, without the newline, as the value, both
  trimmed. The code ends the key with \<open>key[key_len - 1] = '\0'\<close>, which overwrites the last
  character before the equals sign: the line \<open>foo=bar\<close> gives the key \<open>fo\<close>, in both
  variants.
\<close>

theorem load_drops_character_before_equals:
  "settings_load (empty_disk\<lparr>files := (files empty_disk)(''cfg'' \<mapsto> ''foo=bar'' @ [newline])\<rparr>)
       [] (Some []) (Some ''cfg'')
     = Inr (1, [], Some [\<lparr>key = ''fo'', value = ''bar''\<rparr>])
   \<and> settings_load_dyn (empty_disk\<lparr>files := (files empty_disk)(''cfg'' \<mapsto> ''foo=bar'' @ [newline])\<rparr>)
       [] (Some []) (Some ''cfg'')
     = Inr (1, [], Some [\<lparr>key_dyn = Some ''fo'', value_dyn = Some ''bar''\<rparr>])"
proof
  show "settings_load (empty_disk\<lparr>files := (files empty_disk)(''cfg'' \<mapsto> ''foo=bar'' @ [newline])\<rparr>)
       [] (Some []) (Some ''cfg'')
     = Inr (1, [], Some [\<lparr>key = ''fo'', value = ''bar''\<rparr>])"
    by (simp add: load_eval)
next
  show "settings_load_dyn (empty_disk\<lparr>files := (files empty_disk)(''cfg'' \<mapsto> ''foo=bar'' @ [newline])\<rparr>)
       [] (Some []) (Some ''cfg'')
     = Inr (1, [], Some [\<lparr>key_dyn = Some ''fo'', value_dyn = Some ''bar''\<rparr>])"
    by (simp add: load_dyn_eval)
qed

text \<open>
  The value loses its last character in the same way; that character is the newline except
  on a last line that has none. A line that starts with the equals sign, or that has nothing
  but the newline after it, makes the load write or read outside an array. The lines of the
  repository's test, which have white space before the equals sign, load as the claim says.
\<close>

lemma load_last_line_without_newline:
  "settings_load (empty_disk\<lparr>files := (files empty_disk)(''cfg'' \<mapsto> ''a = xy'')\<rparr>)
       [] (Some []) (Some ''cfg'')
     = Inr (1, [], Some [\<lparr>key = ''a'', value = ''x''\<rparr>])"
  by (simp add: load_eval)

lemma load_line_starting_with_equals:
  "settings_load (empty_disk\<lparr>files := (files empty_disk)(''cfg'' \<mapsto> ''=v'' @ [newline])\<rparr>)
       [] (Some []) (Some ''cfg'')
     = Inl OutOfBounds"
  by (simp add: load_eval)

lemma load_line_with_empty_value:
  "settings_load (empty_disk\<lparr>files := (files empty_disk)(''cfg'' \<mapsto> ''k ='' @ [newline])\<rparr>)
       [] (Some []) (Some ''cfg'')
     = Inl OutOfBounds"
  by (simp add: load_eval)

lemma load_test_file:
  "settings_load
      (empty_disk\<lparr>files := (files empty_disk)(''cfg'' \<mapsto> ''foo  bar  = abc def =   ghi   '' @ [newline]
                          @ ''  bar =   54321 '' @ [newline]
                          @ ''baz =  123.1'' @ [newline])\<rparr>)
      [] (Some []) (Some ''cfg'')
     = Inr (1, [], Some [\<lparr>key = ''foo  bar'', value = ''abc def =   ghi''\<rparr>,
                         \<lparr>key = ''bar'', value = ''54321''\<rparr>,
                         \<lparr>key = ''baz'', value = ''123.1''\<rparr>])"
  by (simp add: load_eval)

section \<open>Allocation failure in the dynamic store\<close>

text \<open>
  C2. In the dynamic variant a call of settings_set_string during which a reallocation fails
  is to return failure and leave the store as it was. On a key that the store has, the code
  assigns the result of the failed reallocation to the key of the pair: the call returns
  failure and the pair is left with a null key.
\<close>

theorem set_string_dyn_realloc_failure:
  "settings_set_string_dyn [False] (Some [\<lparr>key_dyn = Some ''foo'', value_dyn = Some ''abc''\<rparr>])
       (Some ''foo'') (Some ''def'')
     = (0, [], Some [\<lparr>key_dyn = None, value_dyn = Some ''abc''\<rparr>])"
  by (simp add: settings_set_string_dyn_def find_pair_dyn_def keys_match_dyn_def resize_def
      memory_realloc_def copy_pair_dyn_def)

text \<open>When the reallocation of the value fails instead, the pair is left with a null value.\<close>

lemma set_string_dyn_second_realloc_failure:
  "settings_set_string_dyn [True, False]
       (Some [\<lparr>key_dyn = Some ''foo'', value_dyn = Some ''abc''\<rparr>]) (Some ''foo'') (Some ''def'')
     = (0, [], Some [\<lparr>key_dyn = Some ''foo'', value_dyn = None\<rparr>])"
  by (simp add: settings_set_string_dyn_def find_pair_dyn_def keys_match_dyn_def resize_def
      memory_realloc_def copy_pair_dyn_def)

text \<open>
  C5. After any sequence of settings_set_string calls on a store created empty, a lookup is
  to return the value of the most recent successful call for that key. In the dynamic
  variant, after a successful call for \<open>foo\<close> and a call for \<open>foo\<close> that fails in its
  reallocation, the lookup of \<open>foo\<close> returns the default and not the value set.
\<close>

theorem set_string_dyn_lookup_after_failure:
  "settings_set_string_dyn [] (Some []) (Some ''foo'') (Some ''abc'')
     = (1, [], Some [\<lparr>key_dyn = Some ''foo'', value_dyn = Some ''abc''\<rparr>])
   \<and> settings_set_string_dyn [False] (Some [\<lparr>key_dyn = Some ''foo'', value_dyn = Some ''abc''\<rparr>])
        (Some ''foo'') (Some ''def'')
     = (0, [], Some [\<lparr>key_dyn = None, value_dyn = Some ''abc''\<rparr>])
   \<and> settings_get_string_dyn (Some [\<lparr>key_dyn = None, value_dyn = Some ''abc''\<rparr>])
        (Some ''foo'') (Some ''D'') = Some ''D''"
  by (simp add: settings_set_string_dyn_def find_pair_dyn_def keys_match_dyn_def resize_def
      memory_realloc_def copy_pair_dyn_def create_pair_dyn_def settings_get_string_dyn_def)

section \<open>Integers as text\<close>

text \<open>
  C3. A successful settings_set_int followed by settings_get_int is to return the integer
  that was set. The dynamic variant formats into \<open>INT_DIGITS\<close> bytes, terminator included,
  which is one too few for a negative number of ten digits: \<open>INT_MIN\<close> is stored as
  \<open>-214748364\<close> and read back as that number.
\<close>

theorem set_int_dyn_truncates:
  "settings_set_int_dyn [] (Some []) (Some ''n'') (- 2147483648)
     = (1, [], Some [\<lparr>key_dyn = Some ''n'', value_dyn = Some ''-214748364''\<rparr>])
   \<and> settings_get_int_dyn (Some [\<lparr>key_dyn = Some ''n'', value_dyn = Some ''-214748364''\<rparr>])
        (Some ''n'') 0 = Inr (- 214748364)"
  by (simp add: settings_set_int_dyn_def settings_set_string_dyn_def find_pair_dyn_def
      keys_match_dyn_def create_pair_dyn_def resize_def memory_realloc_def copy_pair_dyn_def
      snprintf_d_def INT_DIGITS_def NUM_DIGITS_def INT_MAX_spelling_def format_d_def
      decimal.simps digit_char_def settings_get_int_dyn_def atoi_def isspace_def is_digit_def
      digit_val_def INT_MIN_def INT_MAX_def)

section \<open>Saving and loading again\<close>

lemma cstr_no_NUL: "NUL \<notin> set s \<Longrightarrow> cstr s = s"
  by (auto simp: cstr_def)

lemma trim_spec_clean:
  assumes "s \<noteq> []" and "no_outer_space s"
  shows "trim_spec s = s"
  using trim_spec_sandwich [of "[]" "[]" s] assms by (simp add: no_outer_space_def)

lemma trim_spec_after_space:
  assumes "no_outer_space v"
  shows "trim_spec (CHR '' '' # v) = v"
proof (cases "v = []")
  case True
  then show ?thesis
    using trim_spec_spaces [of "'' ''"] by (simp add: isspace_def)
next
  case False
  with assms trim_spec_sandwich [of "'' ''" "[]" v] show ?thesis
    by (simp add: no_outer_space_def isspace_def)
qed

lemma fgets_chars_line:
  "newline \<notin> set l \<Longrightarrow> length l < n \<Longrightarrow> fgets_chars n (l @ newline # rest) = (l @ [newline], rest)"
  by (induction l arbitrary: n) auto

lemma load_line_pair:
  assumes k: "k \<noteq> []" "no_outer_space k" "NUL \<notin> set k" "CHR ''='' \<notin> set k"
      "length k < CONFIG_KEY_LENGTH"
    and v: "no_outer_space v" "NUL \<notin> set v" "length v < CONFIG_VALUE_LENGTH"
    and new: "k \<notin> key ` set acc"
  shows "load_line [] (Some acc) (k @ '' = '' @ v @ [newline])
           = Inr ([], Some (acc @ [\<lparr>key = k, value = v\<rparr>]))"
proof -
  from k(5) have lk: "length k < SIZE_MAX"
    by (simp add: CONFIG_KEY_LENGTH_def SIZE_MAX_def)
  from v(3) have lv: "length (CHR '' '' # v) < SIZE_MAX"
    by (simp add: CONFIG_VALUE_LENGTH_def SIZE_MAX_def)
  from v(2) have nv: "NUL \<notin> set (CHR '' '' # v)"
    by (simp add: NUL_def)
  from new k(5) have "find_pair (Some acc) (Some k) = None"
    by (simp add: find_pair_def find_from_None)
  with k(5) v(3) have set: "settings_set_string [] (Some acc) (Some k) (Some v)
                  = (1, [], Some (acc @ [\<lparr>key = k, value = v\<rparr>]))"
    by (simp add: settings_set_string_def create_pair_def copy_pair_def)
  have "load_line [] (Some acc) (k @ CHR '' '' # CHR ''='' # (CHR '' '' # v) @ [newline])
          = (case settings_set_string [] (Some acc) (Some (trim_spec k))
                    (Some (trim_spec (CHR '' '' # v))) of
               (r, a', st') \<Rightarrow> Inr (a', st'))"
    using k(4) _ k(1,3) lk _ nv lv by (rule load_line_split) simp_all
  then show ?thesis
    by (simp add: trim_spec_clean [OF k(1,2)] trim_spec_after_space [OF v(1)] set)
qed

lemma load_lines_end: "load_lines a settings [] = Inr (a, settings)"
  by (subst load_lines.simps) (simp add: fgets_def)

lemma load_lines_saved:
  assumes "valid_store (acc @ ps)" and "\<forall>pair\<in>set ps. saveable pair"
  shows "load_lines [] (Some acc) (concat (map pair_line ps)) = Inr ([], Some (acc @ ps))"
  using assms
proof (induction ps arbitrary: acc)
  case Nil
  then show ?case by (simp add: load_lines_end)
next
  case (Cons p ps)
  let ?k = "key p" and ?v = "value p"
  let ?rest = "concat (map pair_line ps)"
  let ?text = "?k @ '' = '' @ ?v"
  from Cons.prems(1) have kv: "length ?k < CONFIG_KEY_LENGTH" "length ?v < CONFIG_VALUE_LENGTH"
    "NUL \<notin> set ?k" "NUL \<notin> set ?v" and new: "?k \<notin> key ` set acc"
    by (auto simp: valid_store_def)
  from Cons.prems(2) have sv: "?k \<noteq> []" "no_outer_space ?k" "no_outer_space ?v"
    "CHR ''='' \<notin> set ?k" "newline \<notin> set ?k" "newline \<notin> set ?v"
    by (auto simp: saveable_def)
  have f: "concat (map pair_line (p # ps)) = ?text @ newline # ?rest"
    by (simp add: pair_line_def)
  from sv(5,6) have "newline \<notin> set ?text"
    by (simp add: newline_def)
  moreover from kv(1,2) have "length ?text < 1023"
    by (simp add: CONFIG_KEY_LENGTH_def CONFIG_VALUE_LENGTH_def)
  ultimately have "fgets_chars 1023 (?text @ newline # ?rest) = (?text @ [newline], ?rest)"
    by (rule fgets_chars_line)
  then have fg: "fgets CONFIG_LINE_LENGTH (?text @ newline # ?rest) = Some (?text @ [newline], ?rest)"
    by (simp add: fgets_def CONFIG_LINE_LENGTH_def)
  from kv(3,4) have "NUL \<notin> set (?text @ [newline])"
    by (simp add: NUL_def newline_def)
  then have c: "cstr (?text @ [newline]) = ?k @ '' = '' @ ?v @ [newline]"
    by (simp add: cstr_no_NUL)
  have step: "load_line [] (Some acc) (?k @ '' = '' @ ?v @ [newline])
                = Inr ([], Some (acc @ [\<lparr>key = ?k, value = ?v\<rparr>]))"
    using sv(1,2) kv(3) sv(4) kv(1) sv(3) kv(4) kv(2) new by (rule load_line_pair)
  have p: "\<lparr>key = ?k, value = ?v\<rparr> = p"
    by simp
  from Cons.prems have "load_lines [] (Some (acc @ [p])) ?rest = Inr ([], Some ((acc @ [p]) @ ps))"
    by (intro Cons.IH) simp_all
  then show ?case
    unfolding f
    by (subst load_lines.simps) (simp only: fg c step p option.case prod.case sum.case, simp)
qed

text \<open>
  C4. Saving a store and loading the file into a fresh empty store is to give back the same
  key-to-value mapping when no key or value contains an equals sign or a newline. This fails
  for a key or value with white space at either end, which the load trims away: the key
  \<open>" a"\<close> comes back as \<open>"a"\<close>.
\<close>

theorem save_load_leading_space_counterexample:
  "settings_save empty_disk (Some [\<lparr>key = '' a'', value = ''b''\<rparr>]) (Some ''cfg'')
    = (1, empty_disk\<lparr>files := (files empty_disk)(''cfg'' \<mapsto> '' a = b'' @ [newline])\<rparr>,
       Some [\<lparr>key = '' a'', value = ''b''\<rparr>])
   \<and> settings_load (empty_disk\<lparr>files := (files empty_disk)(''cfg'' \<mapsto> '' a = b'' @ [newline])\<rparr>)
        [] (Some []) (Some ''cfg'')
    = Inr (1, [], Some [\<lparr>key = ''a'', value = ''b''\<rparr>])
   \<and> settings_get_string (Some [\<lparr>key = '' a'', value = ''b''\<rparr>]) (Some '' a'') (Some ''D'')
    = Some ''b''
   \<and> settings_get_string (Some [\<lparr>key = ''a'', value = ''b''\<rparr>]) (Some '' a'') (Some ''D'')
    = Some ''D''"
  by (simp add: settings_save_def settings_get_string_def empty_disk_def load_eval)

text \<open>
  C4 as amended. Take a store of the bounded variant (distinct keys, keys and values that are
  C strings within their arrays) in which every key is non-empty, no key or value contains an
  equals sign or a newline, and no key or value begins or ends with white space. When the
  path can be opened for writing and no allocation fails during the load, settings_save
  succeeds and settings_load of that path into a fresh empty store succeeds with exactly the
  pairs of the original store, in the same order.
\<close>

theorem save_load_roundtrip:
  assumes "valid_store s" and "\<forall>pair\<in>set s. saveable pair" and "\<not> unwritable fs path"
  shows "settings_save fs (Some s) (Some path)
           = (1, fs\<lparr>files := (files fs)(path \<mapsto> concat (map pair_line s))\<rparr>, Some s)
         \<and> settings_load (fs\<lparr>files := (files fs)(path \<mapsto> concat (map pair_line s))\<rparr>)
               [] (Some []) (Some path)
           = Inr (1, [], Some s)"
proof -
  from assms(1,2) have "load_lines [] (Some []) (concat (map pair_line s)) = Inr ([], Some ([] @ s))"
    by (intro load_lines_saved) simp_all
  with assms(3) show ?thesis
    by (simp add: settings_save_def settings_load_def save_pairs_lines)
qed

theorem save_load_roundtrip_witness:
  "valid_store [\<lparr>key = ''foo'', value = ''abc def ghi''\<rparr>, \<lparr>key = ''bar'', value = ''54321''\<rparr>,
                \<lparr>key = ''baz'', value = []\<rparr>]
   \<and> saveable \<lparr>key = ''foo'', value = ''abc def ghi''\<rparr>
   \<and> saveable \<lparr>key = ''bar'', value = ''54321''\<rparr>
   \<and> saveable \<lparr>key = ''baz'', value = []\<rparr>
   \<and> \<not> unwritable empty_disk ''cfg''
   \<and> settings_load
        (fst (snd (settings_save empty_disk
          (Some [\<lparr>key = ''foo'', value = ''abc def ghi''\<rparr>, \<lparr>key = ''bar'', value = ''54321''\<rparr>,
                 \<lparr>key = ''baz'', value = []\<rparr>])
          (Some ''cfg''))))
        [] (Some []) (Some ''cfg'')
      = Inr (1, [], Some [\<lparr>key = ''foo'', value = ''abc def ghi''\<rparr>,
                          \<lparr>key = ''bar'', value = ''54321''\<rparr>, \<lparr>key = ''baz'', value = []\<rparr>])"
proof -
  have v: "valid_store [\<lparr>key = ''foo'', value = ''abc def ghi''\<rparr>,
             \<lparr>key = ''bar'', value = ''54321''\<rparr>, \<lparr>key = ''baz'', value = []\<rparr>]"
    by (simp add: valid_store_def NUL_def CONFIG_KEY_LENGTH_def CONFIG_VALUE_LENGTH_def)
  have s: "saveable \<lparr>key = ''foo'', value = ''abc def ghi''\<rparr>"
    "saveable \<lparr>key = ''bar'', value = ''54321''\<rparr>" "saveable \<lparr>key = ''baz'', value = []\<rparr>"
    by (simp_all add: saveable_def no_outer_space_def isspace_def newline_def)
  have w: "\<not> unwritable empty_disk ''cfg''"
    by (simp add: empty_disk_def)
  from s have "\<forall>pair\<in>set [\<lparr>key = ''foo'', value = ''abc def ghi''\<rparr>,
      \<lparr>key = ''bar'', value = ''54321''\<rparr>, \<lparr>key = ''baz'', value = []\<rparr>]. saveable pair"
    by simp
  from save_load_roundtrip [OF v this w] v s w show ?thesis
    by simp
qed

section \<open>The bounded store as a mapping\<close>

text \<open>
  In the bounded variant a call of settings_set_string either succeeds, and then the store
  stands for the old mapping updated at the key, or fails and leaves the store as it was; the
  keys of the store stay distinct.
\<close>

lemma keys_match_stored:
  assumes "length kp < CONFIG_KEY_LENGTH"
  shows "keys_match (Some kp) (Some k) = (kp = k)"
proof -
  have "keys_match (Some kp) (Some k) = keys_match (Some k) (Some kp)"
    by (auto simp: keys_match_def)
  with keys_match_short [OF assms, of k] show ?thesis
    by auto
qed

lemma find_from_store_map:
  assumes "\<forall>pair\<in>set s. length (key pair) < CONFIG_KEY_LENGTH"
  shows "map_option (\<lambda>(i, pair). value pair) (find_from s j (Some k)) = store_map s k"
  using assms by (induction s arbitrary: j) (auto simp: store_map_def keys_match_stored)

lemma get_string_store_map:
  assumes "valid_store s"
  shows "settings_get_string (Some s) (Some k) d
           = (case store_map s k of None \<Rightarrow> d | Some v \<Rightarrow> Some v)"
proof -
  from assms have "\<forall>pair\<in>set s. length (key pair) < CONFIG_KEY_LENGTH"
    by (simp add: valid_store_def)
  from find_from_store_map [OF this, of 0 k, symmetric] show ?thesis
    by (cases "find_from s 0 (Some k)")
       (auto simp: settings_get_string_def find_pair_def split: prod.splits)
qed

lemma store_map_update:
  assumes "distinct (map key s)" and "i < length s" and "key (s ! i) = k"
  shows "store_map (s[i := \<lparr>key = k, value = v\<rparr>]) = (store_map s)(k \<mapsto> v)"
  using assms
proof (induction s arbitrary: i)
  case Nil
  then show ?case by simp
next
  case (Cons p ps)
  show ?case
  proof (cases i)
    case 0
    with Cons.prems show ?thesis
      by (auto simp: store_map_def)
  next
    case (Suc n)
    with Cons.prems have "key p \<noteq> k"
      by (metis distinct.simps(2) length_Cons list.simps(9) not_less_eq nth_Cons_Suc nth_map nth_mem
          length_map)
    moreover from Cons.prems Suc have "store_map (ps[n := \<lparr>key = k, value = v\<rparr>]) = (store_map ps)(k \<mapsto> v)"
      by (intro Cons.IH) auto
    ultimately show ?thesis
      using Suc by (auto simp: store_map_def)
  qed
qed

lemma store_map_append:
  "k \<notin> key ` set s \<Longrightarrow> store_map (s @ [\<lparr>key = k, value = v\<rparr>]) = (store_map s)(k \<mapsto> v)"
proof -
  assume "k \<notin> key ` set s"
  then have "map_of (map (\<lambda>pair. (key pair, value pair)) s) k = None"
    by (induction s) auto
  then show ?thesis
    by (auto simp: store_map_def map_add_def fun_eq_iff split: option.splits)
qed

lemma set_string_bounded_step:
  assumes "valid_store s" and "NUL \<notin> set k" and "NUL \<notin> set v"
    and "settings_set_string a (Some s) (Some k) (Some v) = (r, a', st)"
  shows "\<exists>s'. st = Some s' \<and> valid_store s'
           \<and> (r = 1 \<and> store_map s' = (store_map s)(k \<mapsto> v) \<or> r = 0 \<and> s' = s)"
proof (cases "r = 1")
  case False
  with assms(4) have "r = 0 \<and> st = Some s"
    by (auto simp: settings_set_string_def create_pair_def
             split: if_splits option.splits prod.splits bool.splits)
  with assms(1) show ?thesis
    by simp
next
  case True
  with assms(4) obtain s' where st: "st = Some s'"
    by (cases st) (auto simp: settings_set_string_def create_pair_def
             split: if_splits option.splits prod.splits bool.splits)
  from assms(4) True st have run: "settings_set_string a (Some s) (Some k) (Some v) = (1, a', Some s')"
    by simp
  then have len: "length k < CONFIG_KEY_LENGTH" "length v < CONFIG_VALUE_LENGTH"
    by (auto simp: settings_set_string_def split: if_splits)
  from assms(1) have d: "distinct (map key s)"
    by (simp add: valid_store_def)
  from set_string_effect [OF run]
  have pos: "if k \<in> key ` set s
             then \<exists>i<length s. key (s ! i) = k \<and> (\<forall>m<i. key (s ! m) \<noteq> k)
                    \<and> s' = s[i := \<lparr>key = k, value = v\<rparr>]
             else s' = s @ [\<lparr>key = k, value = v\<rparr>]"
    by simp
  show ?thesis
  proof (cases "k \<in> key ` set s")
    case True
    with pos obtain i where i: "i < length s" "key (s ! i) = k" "s' = s[i := \<lparr>key = k, value = v\<rparr>]"
      by auto
    then have keys: "map key s' = map key s"
      by (simp add: map_update list_update_same_conv)
    from i(3) have "set s' \<subseteq> insert \<lparr>key = k, value = v\<rparr> (set s)"
      by (simp add: set_update_subset_insert)
    with assms(1-3) len keys have "valid_store s'"
      by (auto simp: valid_store_def)
    moreover from store_map_update [OF d i(1,2)] i(3) have "store_map s' = (store_map s)(k \<mapsto> v)"
      by simp
    ultimately show ?thesis
      using st \<open>r = 1\<close> by simp
  next
    case False
    with pos have s': "s' = s @ [\<lparr>key = k, value = v\<rparr>]"
      by simp
    with assms(1-3) len False have "valid_store s'"
      by (auto simp: valid_store_def)
    moreover from store_map_append [OF False] s' have "store_map s' = (store_map s)(k \<mapsto> v)"
      by simp
    ultimately show ?thesis
      using st \<open>r = 1\<close> by simp
  qed
qed

lemma valid_store_empty: "valid_store []"
  by (simp add: valid_store_def)

lemma map_upd_then_add: "(m(k \<mapsto> v)) ++ n = m ++ ([k \<mapsto> v] ++ n)"
  by (auto simp: fun_eq_iff map_add_def split: option.splits)

lemma set_strings_store_map:
  assumes "valid_store s" and "\<forall>(k, v)\<in>set calls. NUL \<notin> set k \<and> NUL \<notin> set v"
  shows "\<exists>s'. snd (set_strings a (Some s) calls) = Some s' \<and> valid_store s'
           \<and> store_map s' = store_map s ++ map_of (rev (successful_sets a (Some s) calls))"
  using assms
proof (induction calls arbitrary: a s)
  case Nil
  then show ?case by simp
next
  case (Cons c calls)
  obtain k v where c: "c = (k, v)"
    by (cases c)
  obtain r a' st where run: "settings_set_string a (Some s) (Some k) (Some v) = (r, a', st)"
    by (cases "settings_set_string a (Some s) (Some k) (Some v)")
  from Cons.prems c have nn: "NUL \<notin> set k" "NUL \<notin> set v"
    by auto
  from set_string_bounded_step [OF Cons.prems(1) nn run]
  obtain s1 where s1: "st = Some s1" "valid_store s1"
    "r = 1 \<and> store_map s1 = (store_map s)(k \<mapsto> v) \<or> r = 0 \<and> s1 = s"
    by auto
  from Cons.prems(2) have "\<forall>(k, v)\<in>set calls. NUL \<notin> set k \<and> NUL \<notin> set v"
    by simp
  from Cons.IH [OF s1(2) this, of a']
  obtain s' where s': "snd (set_strings a' (Some s1) calls) = Some s'" "valid_store s'"
    "store_map s' = store_map s1 ++ map_of (rev (successful_sets a' (Some s1) calls))"
    by auto
  from s1(3) have "store_map s' = store_map s ++ map_of (rev (successful_sets a (Some s) (c # calls)))"
  proof
    assume ok: "r = 1 \<and> store_map s1 = (store_map s)(k \<mapsto> v)"
    with c run s1(1) have "successful_sets a (Some s) (c # calls)
                             = (k, v) # successful_sets a' (Some s1) calls"
      by simp
    then have m: "map_of (rev (successful_sets a (Some s) (c # calls)))
                 = [k \<mapsto> v] ++ map_of (rev (successful_sets a' (Some s1) calls))"
      by (simp only: rev.simps map_of_append) simp
    from s'(3) ok
    have "store_map s' = (store_map s)(k \<mapsto> v) ++ map_of (rev (successful_sets a' (Some s1) calls))"
      by simp
    also have "\<dots> = store_map s ++ ([k \<mapsto> v] ++ map_of (rev (successful_sets a' (Some s1) calls)))"
      by (rule map_upd_then_add)
    finally show ?thesis
      by (simp only: m)
  next
    assume "r = 0 \<and> s1 = s"
    with s'(3) c run s1(1) show ?thesis
      by simp
  qed
  with s'(1,2) c run s1(1) show ?case
    by simp
qed

text \<open>
  For every sequence of settings_set_string calls on an empty store of the bounded variant,
  whatever the allocator does, the keys of the resulting store are distinct and a lookup
  returns the value of the most recent successful call for the key, or the default when
  there is none.
\<close>

theorem set_strings_unique_last_wins:
  assumes "\<forall>(k, v)\<in>set calls. NUL \<notin> set k \<and> NUL \<notin> set v"
  shows "\<exists>s'. snd (set_strings a (Some []) calls) = Some s' \<and> distinct (map key s')
           \<and> (\<forall>k d. settings_get_string (Some s') (Some k) d
                  = (case map_of (rev (successful_sets a (Some []) calls)) k of
                       None \<Rightarrow> d | Some v \<Rightarrow> Some v))"
proof -
  from set_strings_store_map [OF valid_store_empty assms, of a]
  obtain s' where s': "snd (set_strings a (Some []) calls) = Some s'" "valid_store s'"
    "store_map s' = store_map [] ++ map_of (rev (successful_sets a (Some []) calls))"
    by auto
  from s'(3) have "store_map s' = map_of (rev (successful_sets a (Some []) calls))"
    by (simp add: store_map_def)
  with s'(1,2) show ?thesis
    by (auto simp: get_string_store_map valid_store_def)
qed


theorem set_strings_unique_last_wins_witness:
  "snd (set_strings [True, False] (Some [])
          [(''foo'', ''abc''), (''bar'', ''1''), (''foo'', ''def'')])
     = Some [\<lparr>key = ''foo'', value = ''def''\<rparr>]
   \<and> successful_sets [True, False] (Some [])
          [(''foo'', ''abc''), (''bar'', ''1''), (''foo'', ''def'')]
     = [(''foo'', ''abc''), (''foo'', ''def'')]
   \<and> settings_get_string (Some [\<lparr>key = ''foo'', value = ''def''\<rparr>]) (Some ''foo'') (Some ''D'')
     = Some ''def''
   \<and> settings_get_string (Some [\<lparr>key = ''foo'', value = ''def''\<rparr>]) (Some ''bar'') (Some ''D'')
     = Some ''D''"
  using set_strings_unique_last_wins
          [of "[(''foo'', ''abc''), (''bar'', ''1''), (''foo'', ''def'')]" "[True, False]"]
  by (simp add: settings_set_string_def find_pair_def keys_match_def create_pair_def
      copy_pair_def settings_get_string_def CONFIG_KEY_LENGTH_def CONFIG_VALUE_LENGTH_def NUL_def)

section \<open>Integers as text in the bounded store\<close>

lemma digit_char_props:
  assumes "d < 10"
  shows "is_digit (digit_char d) \<and> digit_val (digit_char d) = int d
         \<and> \<not> isspace (digit_char d) \<and> digit_char d \<noteq> CHR ''-'' \<and> digit_char d \<noteq> CHR ''+''"
proof -
  from assms have "d = 0 \<or> d = 1 \<or> d = 2 \<or> d = 3 \<or> d = 4 \<or> d = 5 \<or> d = 6
      \<or> d = 7 \<or> d = 8 \<or> d = 9"
    by arith
  then show ?thesis
    by (elim disjE) (simp_all add: digit_char_def is_digit_def digit_val_def isspace_def)
qed

lemma decimal_digits: "list_all is_digit (decimal n)"
  by (induction n rule: decimal.induct) (subst decimal.simps, simp add: digit_char_props)

lemma decimal_not_empty: "decimal n \<noteq> []"
  by (subst decimal.simps) simp

lemma decimal_hd: "\<exists>d<10. hd (decimal n) = digit_char d"
proof (induction n rule: decimal.induct)
  case (1 n)
  show ?case
  proof (cases "n < 10")
    case True
    then show ?thesis
      by (subst decimal.simps) auto
  next
    case False
    with 1 decimal_not_empty [of "n div 10"] show ?thesis
      by (subst decimal.simps) simp
  qed
qed

lemma atoi_digits_append:
  "list_all is_digit xs \<Longrightarrow> atoi_digits acc (xs @ ys) = atoi_digits (atoi_digits acc xs) ys"
  by (induction xs arbitrary: acc) auto

lemma atoi_digits_decimal: "atoi_digits 0 (decimal n) = int n"
proof (induction n rule: decimal.induct)
  case (1 n)
  show ?case
  proof (cases "n < 10")
    case True
    then show ?thesis
      by (subst decimal.simps) (simp add: digit_char_props)
  next
    case False
    with 1 have "atoi_digits 0 (decimal (n div 10)) = int (n div 10)"
      by simp
    moreover have "10 * int (n div 10) + int (n mod 10) = int n"
      by presburger
    ultimately show ?thesis
      using False
      by (subst decimal.simps)
         (simp add: atoi_digits_append decimal_digits digit_char_props)
  qed
qed

lemma decimal_length: "0 < k \<Longrightarrow> n < 10 ^ k \<Longrightarrow> length (decimal n) \<le> k"
proof (induction k arbitrary: n)
  case 0
  then show ?case by simp
next
  case (Suc k)
  show ?case
  proof (cases "n < 10")
    case True
    then show ?thesis
      by (subst decimal.simps) simp
  next
    case False
    with Suc.prems have "0 < k"
      by (cases k) auto
    moreover from Suc.prems have "n div 10 < 10 ^ k"
      by (simp add: less_mult_imp_div_less mult.commute)
    ultimately have "length (decimal (n div 10)) \<le> k"
      by (rule Suc.IH)
    with False show ?thesis
      by (subst decimal.simps) simp
  qed
qed

lemma atoi_format_d:
  assumes "INT_MIN \<le> v" and "v \<le> INT_MAX"
  shows "atoi (format_d v) = Inr v" and "length (format_d v) \<le> 11"
proof -
  let ?n = "nat \<bar>v\<bar>"
  obtain d where d: "d < 10" "hd (decimal ?n) = digit_char d"
    using decimal_hd by blast
  obtain c cs where dec: "decimal ?n = c # cs"
    using decimal_not_empty [of ?n] by (cases "decimal ?n") auto
  with d have c: "\<not> isspace c" "c \<noteq> CHR ''-''" "c \<noteq> CHR ''+''"
    using digit_char_props [OF d(1)] by auto
  have val: "atoi_digits 0 (c # cs) = int ?n"
    using atoi_digits_decimal [of ?n] dec by simp
  show "atoi (format_d v) = Inr v"
  proof (cases "v < 0")
    case True
    then have "format_d v = CHR ''-'' # c # cs"
      using dec by (simp add: format_d_def abs_if)
    with True assms val show ?thesis
      by (simp add: atoi_def isspace_def INT_MIN_def INT_MAX_def)
  next
    case False
    then have "format_d v = c # cs"
      using dec by (simp add: format_d_def abs_if)
    with False assms val c show ?thesis
      by (simp add: atoi_def INT_MIN_def INT_MAX_def)
  qed
  from assms have "?n < 10 ^ 10"
    by (simp add: INT_MIN_def INT_MAX_def)
  then have "length (decimal ?n) \<le> 10"
    by (intro decimal_length) simp_all
  then show "length (format_d v) \<le> 11"
    by (auto simp: format_d_def abs_if split: if_splits)
qed

lemma find_from_first:
  assumes "length k < CONFIG_KEY_LENGTH" and "i < length s" and "key (s ! i) = k"
    and "\<forall>m<i. key (s ! m) \<noteq> k"
  shows "find_from s j (Some k) = Some (j + i, s ! i)"
  using assms(2-)
proof (induction s arbitrary: i j)
  case Nil
  then show ?case by simp
next
  case (Cons p ps)
  show ?case
  proof (cases i)
    case 0
    with Cons.prems assms(1) show ?thesis
      by (simp add: keys_match_short)
  next
    case (Suc n)
    with Cons.prems have "key p \<noteq> k"
      by auto
    moreover from Cons.prems Suc have "find_from ps (j + 1) (Some k) = Some (j + 1 + n, ps ! n)"
      by (intro Cons.IH) auto
    ultimately show ?thesis
      using Suc assms(1) by (simp add: keys_match_short)
  qed
qed

lemma find_pair_after_set:
  assumes "settings_set_string a (Some s) (Some k) (Some v) = (1, a', Some s')"
  shows "\<exists>i. find_pair (Some s') (Some k) = Some (i, \<lparr>key = k, value = v\<rparr>)"
proof -
  from assms have len: "length k < CONFIG_KEY_LENGTH"
    by (auto simp: settings_set_string_def split: if_splits)
  from set_string_effect [OF assms]
  have pos: "if k \<in> key ` set s
             then \<exists>i<length s. key (s ! i) = k \<and> (\<forall>m<i. key (s ! m) \<noteq> k)
                    \<and> s' = s[i := \<lparr>key = k, value = v\<rparr>]
             else s' = s @ [\<lparr>key = k, value = v\<rparr>]"
    by simp
  show ?thesis
  proof (cases "k \<in> key ` set s")
    case True
    with pos obtain i where i: "i < length s" "key (s ! i) = k" "\<forall>m<i. key (s ! m) \<noteq> k"
      "s' = s[i := \<lparr>key = k, value = v\<rparr>]"
      by auto
    from i have "find_from s' 0 (Some k) = Some (0 + i, s' ! i)"
      by (intro find_from_first [OF len]) auto
    with i show ?thesis
      by (auto simp: find_pair_def)
  next
    case False
    with pos have s': "s' = s @ [\<lparr>key = k, value = v\<rparr>]"
      by simp
    from False have "\<forall>m<length s. key (s' ! m) \<noteq> k"
      by (auto simp: s' nth_append)
    then have "find_from s' 0 (Some k) = Some (0 + length s, s' ! length s)"
      by (intro find_from_first [OF len]) (auto simp: s')
    then show ?thesis
      by (auto simp: find_pair_def s')
  qed
qed

text \<open>
  In the bounded variant a successful settings_set_int followed by settings_get_int returns
  the integer that was set, for every int.
\<close>

theorem set_int_get_int_bounded:
  assumes "INT_MIN \<le> v" and "v \<le> INT_MAX"
    and "settings_set_int a (Some s) (Some k) v = (1, a', st)"
  shows "settings_get_int st (Some k) d = Inr v"
proof -
  from atoi_format_d [OF assms(1,2)] have fmt: "snprintf_d CONFIG_VALUE_LENGTH v = format_d v"
    and rt: "atoi (format_d v) = Inr v"
    by (simp_all add: snprintf_d_def CONFIG_VALUE_LENGTH_def)
  from assms(3) obtain s' where st: "st = Some s'"
    by (cases st) (auto simp: settings_set_int_def settings_set_string_def create_pair_def
                       split: if_splits option.splits prod.splits bool.splits)
  with assms(3) fmt have "settings_set_string a (Some s) (Some k) (Some (format_d v)) = (1, a', Some s')"
    by (simp add: settings_set_int_def)
  from find_pair_after_set [OF this] rt st show ?thesis
    by (auto simp: settings_get_int_def)
qed

theorem set_int_get_int_bounded_witness:
  "INT_MIN \<le> - 2147483648 \<and> - 2147483648 \<le> INT_MAX
   \<and> settings_set_int [] (Some []) (Some ''n'') (- 2147483648)
       = (1, [], Some [\<lparr>key = ''n'', value = ''-2147483648''\<rparr>])
   \<and> settings_get_int (Some [\<lparr>key = ''n'', value = ''-2147483648''\<rparr>]) (Some ''n'') 0
       = Inr (- 2147483648)"
proof -
  have range: "INT_MIN \<le> - 2147483648" "- 2147483648 \<le> INT_MAX"
    by (simp_all add: INT_MIN_def INT_MAX_def)
  have run: "settings_set_int [] (Some []) (Some ''n'') (- 2147483648)
       = (1, [], Some [\<lparr>key = ''n'', value = ''-2147483648''\<rparr>])"
    by (simp add: settings_set_int_def settings_set_string_def find_pair_def create_pair_def
        copy_pair_def snprintf_d_def format_d_def decimal.simps digit_char_def
        CONFIG_KEY_LENGTH_def CONFIG_VALUE_LENGTH_def)
  from set_int_get_int_bounded [OF range run] range run show ?thesis
    by simp
qed

section \<open>Reading lines in the dynamic store\<close>

text \<open>
  The block of get_line always holds the string read so far: the bounds check that the model
  of its loop makes never fails.
\<close>

lemma fgets_chars_length: "length (fst (fgets_chars n cs)) \<le> n"
  by (induction n cs rule: fgets_chars.induct) (auto split: prod.splits)

lemma cstr_length: "length (cstr l) \<le> length l"
  by (simp add: cstr_def length_takeWhile_le)

lemma get_line_loop_fits:
  "length buf < size' \<Longrightarrow> get_line_loop a size' buf f \<noteq> Inl OutOfBounds"
proof (induction a size' buf f rule: get_line_loop.induct)
  case (1 a size' buf f)
  show ?case
  proof (cases "newline \<in> set buf")
    case True
    with "1.prems" show ?thesis
      by (subst get_line_loop.simps) simp
  next
    case nl: False
    obtain ok a' where ra: "memory_realloc a = (ok, a')"
      by (cases "memory_realloc a")
    show ?thesis
    proof (cases "ok \<and> fgets (size' + BUFSIZ - length buf) f \<noteq> None")
      case False
      with "1.prems" nl ra show ?thesis
        by (subst get_line_loop.simps) (auto split: bool.splits option.splits)
    next
      case True
      then obtain l f' where fg: "fgets (size' + BUFSIZ - length buf) f = Some (l, f')"
        by auto
      then have "length l \<le> size' + BUFSIZ - length buf - 1"
        using fgets_chars_length [of "size' + BUFSIZ - length buf - 1" f]
        by (auto simp: fgets_def split: if_splits)
      with cstr_length [of l] "1.prems" have fit: "length (buf @ cstr l) < size' + BUFSIZ"
        by (simp add: BUFSIZ_def)
      from "1.prems" have ns: "\<not> size' \<le> length buf"
        by simp
      from True have ok: "ok = True"
        by simp
      have "get_line_loop a' (size' + BUFSIZ) (buf @ cstr l) f' \<noteq> Inl OutOfBounds"
        by (rule "1.IH" [OF nl ns ra [symmetric] ok fg refl fit])
      with "1.prems" nl ra True fg show ?thesis
        by (subst get_line_loop.simps) simp
    qed
  qed
qed

lemma get_line_in_bounds: "get_line a f \<noteq> Inl OutOfBounds"
proof -
  have "get_line_loop a' BUFSIZ (cstr l) f' \<noteq> Inl OutOfBounds"
    if "fgets BUFSIZ f = Some (l, f')" for a' l f'
  proof -
    from that have "length l \<le> BUFSIZ - 1"
      using fgets_chars_length [of "BUFSIZ - 1" f] by (auto simp: fgets_def split: if_splits)
    with cstr_length [of l] have "length (cstr l) < BUFSIZ"
      by (simp add: BUFSIZ_def)
    then show ?thesis
      by (rule get_line_loop_fits)
  qed
  then show ?thesis
    by (auto simp: get_line_def split: prod.splits bool.splits option.splits)
qed

section \<open>A failed creation in the dynamic store\<close>

text \<open>
  When the key is new, a call of settings_set_string of the dynamic variant either appends
  the pair or fails and leaves the store as it was.
\<close>

lemma set_string_dyn_new_key_failure:
  assumes "find_pair_dyn (Some s) (Some k) = None"
    and "settings_set_string_dyn a (Some s) (Some k) (Some v) = (r, a', st)"
  shows "r = 1 \<and> st = Some (s @ [\<lparr>key_dyn = Some k, value_dyn = Some v\<rparr>]) \<or> r = 0 \<and> st = Some s"
  using assms
  by (auto simp: settings_set_string_dyn_def create_pair_dyn_def copy_pair_dyn_def resize_def
           split: prod.splits bool.splits option.splits if_splits)

end
